theory Spec2Isabelle
  imports Main "HOL-Library.Word"
begin

unbundle bit_operations_syntax

section \<open>Constants and data of ai/minimax.go\<close>

text \<open>
  Go's \<open>uint64\<close> and \<open>int64\<close> are 64-bit words; an \<open>int64\<close> is read with \<open>sint\<close> and
  compared with the signed orders \<open><s\<close> and \<open>\<le>s\<close>. Plies and depths (Go \<open>int\<close>) are
  small loop indices and are kept as HOL integers.
\<close>

type_synonym u64 = "64 word"
type_synonym i64 = "64 word"

definition MaxEval :: i64 where
  "MaxEval = push_bit 30 1"

definition MinEval :: i64 where
  "MinEval = - MaxEval"

definition WinThreshold :: i64 where
  "WinThreshold = push_bit 29 1"

definition tableSize :: u64 where
  "tableSize = push_bit 20 1"

definition maxDepth :: int where
  "maxDepth = 15"

definition multiCutSearch :: int where
  "multiCutSearch = 6"

definition multiCutThreshold :: int where
  "multiCutThreshold = 3"

definition hashMul :: u64 where
  "hashMul = 0x61C8864680B583EB"

text \<open>The move value of package tak: coordinates, a type and the slide lengths.
  \<open>NoType\<close> is the zero value of the type byte.\<close>

datatype MoveType = NoType | Pass | PlaceFlat | PlaceStanding | PlaceCapstone
  | SlideLeft | SlideRight | SlideUp | SlideDown

record Move =
  mX :: int
  mY :: int
  mType :: MoveType
  mSlides :: "nat list"

definition zeroMove :: Move where
  "zeroMove = \<lparr>mX = 0, mY = 0, mType = NoType, mSlides = []\<rparr>"

definition passMove :: Move where
  "passMove = \<lparr>mX = 0, mY = 0, mType = Pass, mSlides = []\<rparr>"

datatype boundType = lowerBound | exactBound | upperBound

record tableEntry =
  te_hash :: u64
  te_depth :: int
  te_value :: i64
  te_bound :: boundType
  te_m :: Move

definition zeroEntry :: tableEntry where
  "zeroEntry = \<lparr>te_hash = 0, te_depth = 0, te_value = 0, te_bound = lowerBound, te_m = zeroMove\<rparr>"

record Stats =
  stDepth :: int
  Canceled :: bool
  Elapsed :: int
  Generated :: u64
  Evaluated :: u64
  Scout :: u64
  Terminal :: u64
  Visited :: u64
  CutNodes :: u64
  NullSearch :: u64
  NullCut :: u64
  Cut0 :: u64
  Cut1 :: u64
  CutSearch :: u64
  ReSearch :: u64
  AllNodes :: u64
  TTHits :: u64
  TTShortcut :: u64
  Extensions :: u64
  ReducedSlides :: u64
  MCSearch :: u64
  MCCut :: u64

definition zeroStats :: Stats where
  "zeroStats = \<lparr>stDepth = 0, Canceled = False, Elapsed = 0, Generated = 0, Evaluated = 0,
     Scout = 0, Terminal = 0, Visited = 0, CutNodes = 0, NullSearch = 0, NullCut = 0,
     Cut0 = 0, Cut1 = 0, CutSearch = 0, ReSearch = 0, AllNodes = 0, TTHits = 0,
     TTShortcut = 0, Extensions = 0, ReducedSlides = 0, MCSearch = 0, MCCut = 0\<rparr>"

definition Merge :: "Stats \<Rightarrow> Stats \<Rightarrow> Stats" where
  "Merge s other = s\<lparr>
     Generated := Generated s + Generated other,
     Evaluated := Evaluated s + Evaluated other,
     Scout := Scout s + Scout other,
     Terminal := Terminal s + Terminal other,
     Visited := Visited s + Visited other,
     CutNodes := CutNodes s + CutNodes other,
     NullSearch := NullSearch s + NullSearch other,
     NullCut := NullCut s + NullCut other,
     Cut0 := Cut0 s + Cut0 other,
     Cut1 := Cut1 s + Cut1 other,
     CutSearch := CutSearch s + CutSearch other,
     ReSearch := ReSearch s + ReSearch other,
     AllNodes := AllNodes s + AllNodes other,
     TTHits := TTHits s + TTHits other,
     TTShortcut := TTShortcut s + TTShortcut other,
     Extensions := Extensions s + Extensions other,
     ReducedSlides := ReducedSlides s + ReducedSlides other,
     MCSearch := MCSearch s + MCSearch other,
     MCCut := MCCut s + MCCut other\<rparr>"

record MinimaxConfig =
  Size :: int
  Depth :: int
  Debug :: int
  Seed :: i64
  RandomizeWindow :: i64
  RandomizeScale :: i64
  NoSort :: bool
  NoTable :: bool
  NoNullMove :: bool
  NoExtendForces :: bool
  NoReduceSlides :: bool
  NoMultiCut :: bool

definition MakePrecise :: "MinimaxConfig \<Rightarrow> MinimaxConfig" where
  "MakePrecise c = c\<lparr>NoNullMove := True, NoExtendForces := True,
     NoReduceSlides := True, NoMultiCut := True\<rparr>"

text \<open>
  The engine. \<open>table\<close> is the array of \<open>tableSize\<close> entries, read at an index below
  \<open>tableSize\<close>; \<open>stackM\<close> holds \<open>stack[ply].m\<close> for the \<open>maxDepth\<close> frames. The scratch
  positions, principal-variation buffers and generators of the frames are values local to
  the frame that uses them. The flag behind \<open>cancel\<close> is written by another goroutine:
  \<open>polls\<close> counts the atomic loads made so far, and the environment answers each of them.
  \<open>ticks\<close> counts the readings of the clock, \<open>randSeed\<close> and \<open>draws\<close> stand for \<open>rand\<close>.
\<close>

record MinimaxAI =
  cfg :: MinimaxConfig
  st :: Stats
  history :: "u64 \<rightharpoonup> int"
  response :: "u64 \<rightharpoonup> Move"
  table :: "u64 \<Rightarrow> tableEntry"
  aiDepth :: int
  stackM :: "Move list"
  polls :: nat
  ticks :: nat
  randSeed :: i64
  draws :: nat

text \<open>The runtime environment of one call: the context's cancellation as seen by the
  k-th atomic load, the k-th reading of the clock in nanoseconds, the context's deadline,
  and the pseudo-random generator (seed, index of the draw, bound).\<close>

record env =
  cancelAt :: "nat \<Rightarrow> bool"
  clock :: "nat \<Rightarrow> int"
  deadline :: "int option"
  Int63n :: "i64 \<Rightarrow> nat \<Rightarrow> i64 \<Rightarrow> i64"

datatype error = WrongSize | IndexOutOfRange | InvalidArgument | DivideByZero

definition NewMinimax :: "MinimaxConfig \<Rightarrow> MinimaxAI" where
  "NewMinimax c = \<lparr>
     cfg = c\<lparr>Depth := (if Depth c = 0 then maxDepth else Depth c),
             RandomizeScale := (if RandomizeScale c = 0 then 1 else RandomizeScale c)\<rparr>,
     st = zeroStats,
     history = Map.empty,
     response = Map.empty,
     table = (\<lambda>_. zeroEntry),
     aiDepth = 0,
     stackM = replicate (nat maxDepth) zeroMove,
     polls = 0, ticks = 0, randSeed = 0, draws = 0\<rparr>"

definition loadCancel :: "env \<Rightarrow> MinimaxAI \<Rightarrow> bool \<times> MinimaxAI" where
  "loadCancel e s = (cancelAt e (polls s), s\<lparr>polls := Suc (polls s)\<rparr>)"

subsection \<open>The transposition table\<close>

definition slot1 :: "u64 \<Rightarrow> u64" where
  "slot1 h = h mod tableSize"

definition slot2 :: "u64 \<Rightarrow> u64" where
  "slot2 h = (h * hashMul) mod tableSize"

definition ttGet :: "MinimaxAI \<Rightarrow> u64 \<Rightarrow> tableEntry option" where
  "ttGet s h =
     (if NoTable (cfg s) then None
      else if te_hash (table s (slot1 h)) = h then Some (table s (slot1 h))
      else if te_hash (table s (slot2 h)) = h then Some (table s (slot2 h))
      else None)"

text \<open>\<open>ttPut\<close> returns the index of the primary slot (the pointer \<open>&m.table[i1]\<close>), or
  \<open>None\<close> for \<open>nil\<close>.\<close>

definition ttPut :: "env \<Rightarrow> u64 \<Rightarrow> MinimaxAI \<Rightarrow> u64 option \<times> MinimaxAI" where
  "ttPut e h s =
     (if NoTable (cfg s) then (None, s)
      else case loadCancel e s of (c, s1) \<Rightarrow>
        if c then (None, s1)
        else (Some (slot1 h),
              if te_hash (table s1 (slot1 h)) \<noteq> 0
              then s1\<lparr>table := (table s1)(slot2 h := table s1 (slot1 h))\<rparr>
              else s1))"

subsection \<open>The sufficiency predicate\<close>

definition teSuffices :: "tableEntry \<Rightarrow> int \<Rightarrow> i64 \<Rightarrow> i64 \<Rightarrow> bool" where
  "teSuffices te d \<alpha> \<beta> =
     (if te_depth te \<ge> d \<and>
         (te_bound te = exactBound
          \<or> (te_value te <s \<alpha> \<and> te_bound te = upperBound)
          \<or> (\<beta> <s te_value te \<and> te_bound te = lowerBound))
      then True
      else if te_bound te = exactBound
              \<and> (WinThreshold <s te_value te \<or> te_value te <s - WinThreshold)
      then True
      else False)"

subsection \<open>The collaborators: package tak, the bitboards, the evaluator\<close>

text \<open>
  The position and its operations, the methods of a move, \<open>bitboard.Popcount\<close> and the
  evaluator are code outside this file: they are parameters of the search. \<open>lenStacks\<close> is
  \<open>len(p.Stacks)\<close>, \<open>Height\<close> the array \<open>p.Height\<close>, \<open>MovePreallocated\<close> returns \<open>None\<close>
  for an error. \<open>orderMoves\<close> gives the candidate moves of a frame in the order in which the
  generator tries them.
\<close>

record 'p tak =
  posSize :: "'p \<Rightarrow> int"
  posHash :: "'p \<Rightarrow> u64"
  GameOver :: "'p \<Rightarrow> bool"
  MovePreallocated :: "'p \<Rightarrow> Move \<Rightarrow> 'p option"
  WhiteStones :: "'p \<Rightarrow> int"
  BlackStones :: "'p \<Rightarrow> int"
  White :: "'p \<Rightarrow> u64"
  Black :: "'p \<Rightarrow> u64"
  lenStacks :: "'p \<Rightarrow> int"
  Height :: "'p \<Rightarrow> nat list"
  moveHash :: "Move \<Rightarrow> u64"
  IsSlide :: "Move \<Rightarrow> bool"
  Dest :: "Move \<Rightarrow> int \<times> int"
  Popcount :: "u64 \<Rightarrow> int"
  evaluate :: "'p \<Rightarrow> i64"
  orderMoves :: "MinimaxAI \<Rightarrow> int \<Rightarrow> int \<Rightarrow> 'p \<Rightarrow> tableEntry option \<Rightarrow> Move list \<Rightarrow> Move list"

text \<open>
  Modelled from the spec: the type \<open>moveGenerator\<close> and its methods \<open>Next\<close> and \<open>Reset\<close>
  are not in the sources at hand. The spec (4.4) describes a frame-local cursor that
  yields pairs of a move and the child position, applies each candidate and skips those
  that fail to apply, and supports \<open>reset()\<close> to restart from the first move. The cursor
  is the list of the pairs still to come, next to the whole list.
\<close>

record 'p moveGenerator =
  mgAll :: "(Move \<times> 'p) list"
  mgRest :: "(Move \<times> 'p) list"

definition newGenerator ::
  "'p tak \<Rightarrow> MinimaxAI \<Rightarrow> int \<Rightarrow> int \<Rightarrow> 'p \<Rightarrow> tableEntry option \<Rightarrow> Move list \<Rightarrow> 'p moveGenerator" where
  "newGenerator tk s ply d p te pv =
     (let ms = List.map_filter (\<lambda>m. map_option (Pair m) (MovePreallocated tk p m))
                 (orderMoves tk s ply d p te pv)
      in \<lparr>mgAll = ms, mgRest = ms\<rparr>)"

definition mgNext :: "'p moveGenerator \<Rightarrow> ((Move \<times> 'p) \<times> 'p moveGenerator) option" where
  "mgNext g = (case mgRest g of [] \<Rightarrow> None | x # xs \<Rightarrow> Some (x, g\<lparr>mgRest := xs\<rparr>))"

definition mgReset :: "'p moveGenerator \<Rightarrow> 'p moveGenerator" where
  "mgReset g = g\<lparr>mgRest := mgAll g\<rparr>"

subsection \<open>Frames of the stack\<close>

definition inStack :: "MinimaxAI \<Rightarrow> int \<Rightarrow> bool" where
  "inStack s ply \<longleftrightarrow> 0 \<le> ply \<and> ply < int (length (stackM s))"

definition stackGet :: "MinimaxAI \<Rightarrow> int \<Rightarrow> Move option" where
  "stackGet s ply = (if inStack s ply then Some (stackM s ! nat ply) else None)"

definition stackSet :: "MinimaxAI \<Rightarrow> int \<Rightarrow> Move \<Rightarrow> MinimaxAI option" where
  "stackSet s ply m =
     (if inStack s ply then Some (s\<lparr>stackM := (stackM s)[nat ply := m]\<rparr>) else None)"

subsection \<open>Cut bookkeeping\<close>

text \<open>
  Go's \<open>int\<close> is taken as 64 bits wide: \<open>wrap64\<close> is the value of an integer after it is
  stored in one, \<open>shl1 d\<close> is \<open>1 << uint(d)\<close> (zero once the count reaches the width, as
  it does for a negative \<open>d\<close>), and \<open>quot\<close> is Go's division, which truncates towards
  zero. A history counter is an \<open>int\<close>: adding to it wraps.
\<close>

definition wrap64 :: "int \<Rightarrow> int" where
  "wrap64 x = sint (word_of_int x :: 64 word)"

definition shl1 :: "int \<Rightarrow> int" where
  "shl1 d = sint (push_bit (unat (word_of_int d :: 64 word)) (1 :: 64 word))"

definition quot :: "int \<Rightarrow> int \<Rightarrow> int" where
  "quot a b = (if (a < 0) = (b < 0) then \<bar>a\<bar> div \<bar>b\<bar> else - (\<bar>a\<bar> div \<bar>b\<bar>))"

definition counter :: "(u64 \<rightharpoonup> int) \<Rightarrow> u64 \<Rightarrow> int" where
  "counter h k = (case h k of None \<Rightarrow> 0 | Some v \<Rightarrow> v)"

definition addHistory :: "(u64 \<rightharpoonup> int) \<Rightarrow> u64 \<Rightarrow> int \<Rightarrow> (u64 \<rightharpoonup> int)" where
  "addHistory h k d = h(k \<mapsto> wrap64 (counter h k + shl1 d))"

definition countCut :: "int \<Rightarrow> Stats \<Rightarrow> Stats" where
  "countCut move t =
     (let t1 = t\<lparr>CutNodes := CutNodes t + 1\<rparr>
      in if move = 1 then t1\<lparr>Cut0 := Cut0 t1 + 1\<rparr>
         else if move = 2 then t1\<lparr>Cut1 := Cut1 t1 + 1\<rparr>
         else t1\<lparr>CutSearch := CutSearch t1 + word_of_int (move + 1)\<rparr>)"

definition recordCut ::
  "'p tak \<Rightarrow> Move \<Rightarrow> int \<Rightarrow> int \<Rightarrow> int \<Rightarrow> MinimaxAI \<Rightarrow> (error + unit) \<times> MinimaxAI" where
  "recordCut tk m move d ply s =
     (let s1 = s\<lparr>st := countCut move (st s),
                 history := addHistory (history s) (moveHash tk m) d\<rparr>
      in if ply > 0 then
           (case stackGet s1 (ply - 1) of
              None \<Rightarrow> (Inl IndexOutOfRange, s1)
            | Some prev \<Rightarrow> (Inr (), s1\<lparr>response := (response s1)(moveHash tk prev \<mapsto> m)\<rparr>))
         else (Inr (), s1))"

subsection \<open>Null-move admissibility\<close>

definition nullMoveOK :: "'p tak \<Rightarrow> MinimaxAI \<Rightarrow> int \<Rightarrow> int \<Rightarrow> 'p \<Rightarrow> error + bool" where
  "nullMoveOK tk s ply d p =
     (if NoNullMove (cfg s) then Inr False
      else if ply = 0 \<or> d < 3 then Inr False
      else case stackGet s (ply - 1) of
        None \<Rightarrow> Inl IndexOutOfRange
      | Some prev \<Rightarrow>
          if mType prev = Pass then Inr False
          else if WhiteStones tk p < 3 \<or> BlackStones tk p < 3 then Inr False
          else if Popcount tk (White tk p OR Black tk p) + 3 \<ge> lenStacks tk p then Inr False
          else Inr True)"

subsection \<open>Results, leaves, the table probe and the table stores\<close>

text \<open>
  A call returns the engine as it leaves it, next to a value or the panic that ended it.
  A slice result distinguishes \<open>nil\<close> (\<open>None\<close>) from an empty slice.
\<close>

type_synonym 'a res = "(error + 'a) \<times> MinimaxAI"

definition bumpSt :: "(Stats \<Rightarrow> Stats) \<Rightarrow> MinimaxAI \<Rightarrow> MinimaxAI" where
  "bumpSt f s = s\<lparr>st := f (st s)\<rparr>"

definition elems :: "Move list option \<Rightarrow> Move list" where
  "elems ms = (case ms of None \<Rightarrow> [] | Some xs \<Rightarrow> xs)"

text \<open>The first lines of both searches: \<open>depth <= 0 || over\<close>.\<close>

definition leafEval :: "'p tak \<Rightarrow> 'p \<Rightarrow> MinimaxAI \<Rightarrow> (Move list option \<times> i64) res" where
  "leafEval tk p s =
     (let s1 = bumpSt (\<lambda>t. t\<lparr>Evaluated := Evaluated t + 1\<rparr>) s;
          s2 = (if GameOver tk p then bumpSt (\<lambda>t. t\<lparr>Terminal := Terminal t + 1\<rparr>) s1 else s1)
      in (Inr (None, evaluate tk p), s2))"

text \<open>The probe of both searches: a sufficient entry whose move still applies ends the
  call (\<open>Shortcut\<close>); one whose move does not apply is dropped; one that does not suffice
  is handed to the generator.\<close>

datatype probe = Shortcut Move i64 | Continue "tableEntry option"

definition ttProbe ::
  "'p tak \<Rightarrow> 'p \<Rightarrow> int \<Rightarrow> int \<Rightarrow> i64 \<Rightarrow> i64 \<Rightarrow> MinimaxAI \<Rightarrow> probe res" where
  "ttProbe tk p ply d \<alpha> \<beta> s =
     (case ttGet s (posHash tk p) of
        None \<Rightarrow> (Inr (Continue None), s)
      | Some te \<Rightarrow>
          (let s1 = bumpSt (\<lambda>t. t\<lparr>TTHits := TTHits t + 1\<rparr>) s
           in if teSuffices te d \<alpha> \<beta> then
                (if \<not> inStack s1 ply then (Inl IndexOutOfRange, s1)
                 else (case MovePreallocated tk p (te_m te) of
                         Some child \<Rightarrow>
                           (Inr (Shortcut (te_m te) (te_value te)),
                            bumpSt (\<lambda>t. t\<lparr>TTShortcut := TTShortcut t + 1\<rparr>) s1)
                       | None \<Rightarrow> (Inr (Continue None), s1)))
              else (Inr (Continue (Some te)), s1)))"

text \<open>Slide reduction: the new depth, with the counter of reduced slides. \<open>ai.c.Size\<close> is
  the size of the configuration, from which \<open>precompute\<close> built the constants.\<close>

definition slideReduce ::
  "'p tak \<Rightarrow> MinimaxAI \<Rightarrow> int \<Rightarrow> int \<Rightarrow> 'p \<Rightarrow> error + (int \<times> MinimaxAI)" where
  "slideReduce tk s ply d p =
     (if \<not> NoReduceSlides (cfg s) \<and> ply > 0 then
        (case stackGet s (ply - 1) of
           None \<Rightarrow> Inl IndexOutOfRange
         | Some m \<Rightarrow>
             (if IsSlide tk m \<and> length (mSlides m) = 1 then
                (let i = mX m + mY m * Size (cfg s);
                     j = fst (Dest tk m) + snd (Dest tk m) * Size (cfg s)
                 in if \<not> (0 \<le> i \<and> i < int (length (Height tk p))) then Inl IndexOutOfRange
                    else if Height tk p ! nat i = 0 then
                      (if \<not> (0 \<le> j \<and> j < int (length (Height tk p))) then Inl IndexOutOfRange
                       else if Height tk p ! nat j = mSlides m ! 0
                       then Inr (d - 2, bumpSt (\<lambda>t. t\<lparr>ReducedSlides := ReducedSlides t + 1\<rparr>) s)
                       else Inr (d, s))
                    else Inr (d, s))
              else Inr (d, s)))
      else Inr (d, s))"

definition writeEntry :: "u64 \<Rightarrow> tableEntry \<Rightarrow> MinimaxAI \<Rightarrow> MinimaxAI" where
  "writeEntry i te s = s\<lparr>table := (table s)(i := te)\<rparr>"

text \<open>The store at the end of \<open>zwSearch\<close>. \<open>best[0]\<close> panics on an empty slice, after
  the hash and the depth of the entry are written.\<close>

definition zwStore ::
  "'p tak \<Rightarrow> env \<Rightarrow> 'p \<Rightarrow> int \<Rightarrow> i64 \<Rightarrow> bool \<Rightarrow> Move list \<Rightarrow> MinimaxAI
     \<Rightarrow> (Move list option \<times> i64) res" where
  "zwStore tk e p d \<alpha> didCut best s =
     (case ttPut e (posHash tk p) s of
        (None, s1) \<Rightarrow> (Inr (Some best, if didCut then \<alpha> + 1 else \<alpha>), s1)
      | (Some i, s1) \<Rightarrow>
          (let te1 = (table s1 i)\<lparr>te_hash := posHash tk p, te_depth := d\<rparr>
           in (case best of
                 [] \<Rightarrow> (Inl IndexOutOfRange, writeEntry i te1 s1)
               | b # bs \<Rightarrow>
                   (let te2 = te1\<lparr>te_m := b, te_value := \<alpha>\<rparr>
                    in if didCut
                       then (Inr (Some best, \<alpha> + 1),
                             writeEntry i (te2\<lparr>te_bound := lowerBound\<rparr>) s1)
                       else (Inr (Some best, \<alpha>),
                             bumpSt (\<lambda>t. t\<lparr>AllNodes := AllNodes t + 1\<rparr>)
                               (writeEntry i (te2\<lparr>te_bound := upperBound\<rparr>) s1))))))"

text \<open>The store at the end of \<open>pvSearch\<close>, guarded by
  \<open>te.hash != hash || te.depth <= depth\<close>.\<close>

definition pvStore ::
  "'p tak \<Rightarrow> env \<Rightarrow> 'p \<Rightarrow> int \<Rightarrow> i64 \<Rightarrow> i64 \<Rightarrow> bool \<Rightarrow> Move list \<Rightarrow> MinimaxAI
     \<Rightarrow> (Move list option \<times> i64) res" where
  "pvStore tk e p d \<alpha> \<beta> improved best s =
     (case ttPut e (posHash tk p) s of
        (None, s1) \<Rightarrow> (Inr (Some best, \<alpha>), s1)
      | (Some i, s1) \<Rightarrow>
          (if te_hash (table s1 i) \<noteq> posHash tk p \<or> te_depth (table s1 i) \<le> d then
             (let te1 = (table s1 i)\<lparr>te_hash := posHash tk p, te_depth := d\<rparr>
              in (case best of
                    [] \<Rightarrow> (Inl IndexOutOfRange, writeEntry i te1 s1)
                  | b # bs \<Rightarrow>
                      (let te2 = te1\<lparr>te_m := b, te_value := \<alpha>\<rparr>
                       in if \<not> improved
                          then (Inr (Some best, \<alpha>),
                                bumpSt (\<lambda>t. t\<lparr>AllNodes := AllNodes t + 1\<rparr>)
                                  (writeEntry i (te2\<lparr>te_bound := upperBound\<rparr>) s1))
                          else if \<beta> \<le>s \<alpha>
                          then (Inr (Some best, \<alpha>),
                                writeEntry i (te2\<lparr>te_bound := lowerBound\<rparr>) s1)
                          else (Inr (Some best, \<alpha>),
                                writeEntry i (te2\<lparr>te_bound := exactBound\<rparr>) s1))))
           else (Inr (Some best, \<alpha>), s1)))"

subsection \<open>pvSearch and zwSearch\<close>

text \<open>
  The two searches and their loops. \<open>pvLoop\<close> is the loop over the children in
  \<open>pvSearch\<close>; \<open>zwBody\<close> is \<open>zwSearch\<close> from the slide reduction on, \<open>zwMultiCut\<close> its
  multi-cut loop (\<open>True\<close> when it returns from \<open>zwSearch\<close> with a cut) and \<open>zwLoop\<close> its main
  loop. The loop counter \<open>i\<close> is the value before \<open>i++\<close>.
\<close>

function
  pvSearch :: "'p tak \<Rightarrow> env \<Rightarrow> 'p \<Rightarrow> int \<Rightarrow> int \<Rightarrow> Move list \<Rightarrow> i64 \<Rightarrow> i64 \<Rightarrow> MinimaxAI
     \<Rightarrow> (Move list option \<times> i64) res"
and pvLoop :: "'p tak \<Rightarrow> env \<Rightarrow> 'p \<Rightarrow> int \<Rightarrow> int \<Rightarrow> i64 \<Rightarrow> 'p moveGenerator \<Rightarrow> int \<Rightarrow> Move list
     \<Rightarrow> i64 \<Rightarrow> bool \<Rightarrow> MinimaxAI \<Rightarrow> (Move list option \<times> i64) res"
and zwSearch :: "'p tak \<Rightarrow> env \<Rightarrow> 'p \<Rightarrow> int \<Rightarrow> int \<Rightarrow> Move list \<Rightarrow> i64 \<Rightarrow> bool \<Rightarrow> MinimaxAI
     \<Rightarrow> (Move list option \<times> i64) res"
and zwBody :: "'p tak \<Rightarrow> env \<Rightarrow> 'p \<Rightarrow> int \<Rightarrow> int \<Rightarrow> Move list \<Rightarrow> i64 \<Rightarrow> bool \<Rightarrow> tableEntry option
     \<Rightarrow> MinimaxAI \<Rightarrow> (Move list option \<times> i64) res"
and zwMultiCut :: "'p tak \<Rightarrow> env \<Rightarrow> int \<Rightarrow> int \<Rightarrow> i64 \<Rightarrow> bool \<Rightarrow> 'p moveGenerator \<Rightarrow> int \<Rightarrow> int
     \<Rightarrow> MinimaxAI \<Rightarrow> bool res"
and zwLoop :: "'p tak \<Rightarrow> env \<Rightarrow> 'p \<Rightarrow> int \<Rightarrow> int \<Rightarrow> i64 \<Rightarrow> bool \<Rightarrow> 'p moveGenerator \<Rightarrow> int
     \<Rightarrow> Move list \<Rightarrow> MinimaxAI \<Rightarrow> (Move list option \<times> i64) res"
where
  "pvSearch tk e p ply d pv \<alpha> \<beta> s =
     (if d \<le> 0 \<or> GameOver tk p then leafEval tk p s
      else
        (let s1 = bumpSt (\<lambda>t. t\<lparr>Visited := Visited t + 1\<rparr>) s;
             s2 = (if \<beta> = \<alpha> + 1 then bumpSt (\<lambda>t. t\<lparr>Scout := Scout t + 1\<rparr>) s1 else s1)
         in (case ttProbe tk p ply d \<alpha> \<beta> s2 of
               (Inl er, s3) \<Rightarrow> (Inl er, s3)
             | (Inr (Shortcut m v), s3) \<Rightarrow> (Inr (Some [m], v), s3)
             | (Inr (Continue te), s3) \<Rightarrow>
                 (if \<not> inStack s3 ply then (Inl IndexOutOfRange, s3)
                  else pvLoop tk e p ply d \<beta> (newGenerator tk s3 ply d p te pv) 0 pv \<alpha> False s3))))"
| "pvLoop tk e p ply d \<beta> mg i best \<alpha> improved s =
     (case mgNext mg of
        None \<Rightarrow> pvStore tk e p d \<alpha> \<beta> improved best s
      | Some ((m, child), mg') \<Rightarrow>
          (let newpv = (if best \<noteq> [] then tl best else [])
           in (case stackSet s ply m of
                 None \<Rightarrow> (Inl IndexOutOfRange, s)
               | Some s1 \<Rightarrow>
                   (let r = (if i + 1 > 1 then
                               (case zwSearch tk e child (ply + 1) (d - 1) newpv (- \<alpha> - 1) True s1 of
                                  (Inl er, s2) \<Rightarrow> (Inl er, s2)
                                | (Inr (ms, v), s2) \<Rightarrow>
                                    (if \<alpha> <s - v \<and> - v <s \<beta> then
                                       pvSearch tk e child (ply + 1) (d - 1) newpv (- \<beta>) (- \<alpha>)
                                         (bumpSt (\<lambda>t. t\<lparr>ReSearch := ReSearch t + 1\<rparr>) s2)
                                     else (Inr (ms, v), s2)))
                             else pvSearch tk e child (ply + 1) (d - 1) newpv (- \<beta>) (- \<alpha>) s1)
                    in (case r of
                          (Inl er, s3) \<Rightarrow> (Inl er, s3)
                        | (Inr (ms, v0), s3) \<Rightarrow>
                            (let v = - v0;
                                 best1 = (if best = [] then m # elems ms else best)
                             in if \<alpha> <s v then
                                  (if \<beta> \<le>s v then
                                     (case recordCut tk m (i + 1) d ply s3 of
                                        (Inl er, s4) \<Rightarrow> (Inl er, s4)
                                      | (Inr u, s4) \<Rightarrow>
                                          pvStore tk e p d v \<beta> True (m # elems ms) s4)
                                   else
                                     (case loadCancel e s3 of
                                        (c, s4) \<Rightarrow>
                                          (if c then (Inr (None, 0), s4)
                                           else pvLoop tk e p ply d \<beta> mg' (i + 1)
                                                  (m # elems ms) v True s4)))
                                else
                                  (case loadCancel e s3 of
                                     (c, s4) \<Rightarrow>
                                       (if c then (Inr (None, 0), s4)
                                        else pvLoop tk e p ply d \<beta> mg' (i + 1)
                                               best1 \<alpha> improved s4))))))))"
| "zwSearch tk e p ply d pv \<alpha> ct s =
     (if d \<le> 0 \<or> GameOver tk p then leafEval tk p s
      else
        (let s1 = bumpSt (\<lambda>t. t\<lparr>Visited := Visited t + 1, Scout := Scout t + 1\<rparr>) s
         in (case ttProbe tk p ply d \<alpha> (\<alpha> + 1) s1 of
               (Inl er, s2) \<Rightarrow> (Inl er, s2)
             | (Inr (Shortcut m v), s2) \<Rightarrow> (Inr (Some [m], v), s2)
             | (Inr (Continue te), s2) \<Rightarrow>
                 (case nullMoveOK tk s2 ply d p of
                    Inl er \<Rightarrow> (Inl er, s2)
                  | Inr False \<Rightarrow> zwBody tk e p ply d pv \<alpha> ct te s2
                  | Inr True \<Rightarrow>
                      (case stackSet s2 ply passMove of
                         None \<Rightarrow> (Inl IndexOutOfRange, s2)
                       | Some s3 \<Rightarrow>
                           (case MovePreallocated tk p passMove of
                              None \<Rightarrow> zwBody tk e p ply d pv \<alpha> ct te s3
                            | Some child \<Rightarrow>
                                (case zwSearch tk e child (ply + 1) (d - 3) [] (- \<alpha> - 1) True
                                        (bumpSt (\<lambda>t. t\<lparr>NullSearch := NullSearch t + 1\<rparr>) s3) of
                                   (Inl er, s4) \<Rightarrow> (Inl er, s4)
                                 | (Inr (ms, v), s4) \<Rightarrow>
                                     (if \<alpha> + 1 \<le>s - v
                                      then (Inr (None, - v),
                                            bumpSt (\<lambda>t. t\<lparr>NullCut := NullCut t + 1\<rparr>) s4)
                                      else zwBody tk e p ply d pv \<alpha> ct te s4))))))))"
| "zwBody tk e p ply d0 pv \<alpha> ct te s =
     (case slideReduce tk s ply d0 p of
        Inl er \<Rightarrow> (Inl er, s)
      | Inr (d, s1) \<Rightarrow>
          (if \<not> inStack s1 ply then (Inl IndexOutOfRange, s1)
           else
             (let mg = newGenerator tk s1 ply d p te pv
              in if ct \<and> d > 3 \<and> \<not> NoMultiCut (cfg s1) then
                   (case zwMultiCut tk e ply d \<alpha> ct mg 0 0
                           (bumpSt (\<lambda>t. t\<lparr>MCSearch := MCSearch t + 1\<rparr>) s1) of
                      (Inl er, s2) \<Rightarrow> (Inl er, s2)
                    | (Inr True, s2) \<Rightarrow> (Inr (None, \<alpha> + 1), s2)
                    | (Inr False, s2) \<Rightarrow> zwLoop tk e p ply d \<alpha> ct (mgReset mg) 0 pv s2)
                 else zwLoop tk e p ply d \<alpha> ct (mgReset mg) 0 pv s1)))"
| "zwMultiCut tk e ply d \<alpha> ct mg i cuts s =
     (case mgNext mg of
        None \<Rightarrow> (Inr False, s)
      | Some ((m, child), mg') \<Rightarrow>
          (if i < multiCutSearch then
             (case zwSearch tk e child (ply + 1) (d - 1 - 2) [] (- \<alpha> - 1) (\<not> ct) s of
                (Inl er, s1) \<Rightarrow> (Inl er, s1)
              | (Inr (ms, v), s1) \<Rightarrow>
                  (if \<alpha> <s - v then
                     (if cuts + 1 \<ge> multiCutThreshold
                      then (Inr True, bumpSt (\<lambda>t. t\<lparr>MCCut := MCCut t + 1\<rparr>) s1)
                      else zwMultiCut tk e ply d \<alpha> ct mg' (i + 1) (cuts + 1) s1)
                   else zwMultiCut tk e ply d \<alpha> ct mg' (i + 1) cuts s1))
           else (Inr False, s)))"
| "zwLoop tk e p ply d \<alpha> ct mg i best s =
     (case mgNext mg of
        None \<Rightarrow> zwStore tk e p d \<alpha> False best s
      | Some ((m, child), mg') \<Rightarrow>
          (let newpv = (if best \<noteq> [] then tl best else [])
           in (case stackSet s ply m of
                 None \<Rightarrow> (Inl IndexOutOfRange, s)
               | Some s1 \<Rightarrow>
                   (case zwSearch tk e child (ply + 1) (d - 1) newpv (- \<alpha> - 1) (\<not> ct) s1 of
                      (Inl er, s2) \<Rightarrow> (Inl er, s2)
                    | (Inr (ms, v0), s2) \<Rightarrow>
                        (let v = - v0;
                             best1 = (if best = [] then m # elems ms else best)
                         in if \<alpha> <s v then
                              (case recordCut tk m (i + 1) d ply s2 of
                                 (Inl er, s3) \<Rightarrow> (Inl er, s3)
                               | (Inr u, s3) \<Rightarrow> zwStore tk e p d \<alpha> True (m # elems ms) s3)
                            else
                              (case loadCancel e s2 of
                                 (c, s3) \<Rightarrow>
                                   (if c then (Inr (None, 0), s3)
                                    else zwLoop tk e p ply d \<alpha> ct mg' (i + 1) best1 s3)))))))"
  by pat_completeness auto

text \<open>Termination: a call of a search at depth \<open>d > 0\<close> runs its loops at a depth of at
  most \<open>d\<close>, and a loop calls the searches one level below for each move left in its
  generator.\<close>

definition rank :: "int \<Rightarrow> nat \<times> nat \<times> nat" where
  "rank d = (if d \<le> 0 then (0, 0, 0) else (nat d, 3, 0))"

definition searchRank where
  "searchRank x =
     (case x of
        Inl (Inl (tk, e, p, ply, d, pv, \<alpha>, \<beta>, s)) \<Rightarrow> rank d
      | Inl (Inr (Inl (tk, e, p, ply, d, \<beta>, mg, i, best, \<alpha>, improved, s))) \<Rightarrow>
          (nat d, 1, length (mgRest mg))
      | Inl (Inr (Inr (tk, e, p, ply, d, pv, \<alpha>, ct, s))) \<Rightarrow> rank d
      | Inr (Inl (tk, e, p, ply, d, pv, \<alpha>, ct, te, s)) \<Rightarrow> (nat d, 2, 0)
      | Inr (Inr (Inl (tk, e, ply, d, \<alpha>, ct, mg, i, cuts, s))) \<Rightarrow>
          (nat d, 1, length (mgRest mg))
      | Inr (Inr (Inr (tk, e, p, ply, d, \<alpha>, ct, mg, i, best, s))) \<Rightarrow>
          (nat d, 1, length (mgRest mg)))"

lemma slideReduce_le: "slideReduce tk s ply d p = Inr (d', s') \<Longrightarrow> d' \<le> d"
  by (auto simp: slideReduce_def Let_def split: if_splits option.splits)

lemma mgNext_shorter: "mgNext g = Some (x, g') \<Longrightarrow> length (mgRest g') < length (mgRest g)"
  by (auto simp: mgNext_def split: list.splits)

termination pvSearch
  apply (relation "inv_image (less_than <*lex*> less_than <*lex*> less_than) searchRank")
  apply (simp_all add: searchRank_def rank_def)
  apply (auto dest: slideReduce_le mgNext_shorter)
  done

declare pvSearch.simps [simp del] pvLoop.simps [simp del] zwSearch.simps [simp del]
  zwBody.simps [simp del] zwMultiCut.simps [simp del] zwLoop.simps [simp del]

subsection \<open>A frame rule for the searches\<close>

text \<open>
  Whatever relation between engine states is kept by the elementary writes of the
  searches (the statistics, a frame's move, the count of atomic loads, the table, and
  \<open>recordCut\<close>) is kept by the searches themselves. The relation is carried from a fixed
  first state \<open>a\<close>.
\<close>

definition stepsOK :: "(MinimaxAI \<Rightarrow> MinimaxAI \<Rightarrow> bool) \<Rightarrow> 'p tak \<Rightarrow> int \<Rightarrow> bool" where
  "stepsOK R tk D \<longleftrightarrow>
     (\<forall>a b f. R a b \<longrightarrow> R a (b\<lparr>st := f\<rparr>)) \<and>
     (\<forall>a b f. R a b \<longrightarrow> R a (b\<lparr>stackM := f\<rparr>)) \<and>
     (\<forall>a b f. R a b \<longrightarrow> R a (b\<lparr>polls := f\<rparr>)) \<and>
     (\<forall>a b f. R a b \<longrightarrow> R a (b\<lparr>table := f\<rparr>)) \<and>
     (\<forall>a b f. R a b \<longrightarrow> R a (b\<lparr>ticks := f\<rparr>)) \<and>
     (\<forall>a b f. R a b \<longrightarrow> R a (b\<lparr>aiDepth := f\<rparr>)) \<and>
     (\<forall>a b f. R a b \<longrightarrow> R a (b\<lparr>draws := f\<rparr>)) \<and>
     (\<forall>a b f. R a b \<longrightarrow> R a (b\<lparr>randSeed := f\<rparr>)) \<and>
     (\<forall>a b m i d ply. d \<le> D \<longrightarrow> R a b \<longrightarrow> R a (snd (recordCut tk m i d ply b)))"

lemma stepsOK_st: "stepsOK R tk D \<Longrightarrow> R a b \<Longrightarrow> R a (b\<lparr>st := f\<rparr>)"
  and stepsOK_stackM: "stepsOK R tk D \<Longrightarrow> R a b \<Longrightarrow> R a (b\<lparr>stackM := g\<rparr>)"
  and stepsOK_polls: "stepsOK R tk D \<Longrightarrow> R a b \<Longrightarrow> R a (b\<lparr>polls := n\<rparr>)"
  and stepsOK_table: "stepsOK R tk D \<Longrightarrow> R a b \<Longrightarrow> R a (b\<lparr>table := tb\<rparr>)"
  and stepsOK_ticks: "stepsOK R tk D \<Longrightarrow> R a b \<Longrightarrow> R a (b\<lparr>ticks := n\<rparr>)"
  and stepsOK_aiDepth: "stepsOK R tk D \<Longrightarrow> R a b \<Longrightarrow> R a (b\<lparr>aiDepth := k\<rparr>)"
  and stepsOK_draws: "stepsOK R tk D \<Longrightarrow> R a b \<Longrightarrow> R a (b\<lparr>draws := n\<rparr>)"
  and stepsOK_randSeed: "stepsOK R tk D \<Longrightarrow> R a b \<Longrightarrow> R a (b\<lparr>randSeed := w\<rparr>)"
  and stepsOK_recordCut:
    "stepsOK R tk D \<Longrightarrow> d \<le> D \<Longrightarrow> R a b \<Longrightarrow> R a (snd (recordCut tk m i d ply b))"
  by (simp_all add: stepsOK_def)

lemma frame_bumpSt: "stepsOK R tk D \<Longrightarrow> R a s \<Longrightarrow> R a (bumpSt f s)"
  by (simp add: bumpSt_def stepsOK_st)

lemma frame_stackSet: "stepsOK R tk D \<Longrightarrow> R a s \<Longrightarrow> stackSet s ply m = Some s' \<Longrightarrow> R a s'"
  by (auto simp: stackSet_def stepsOK_stackM split: if_splits)

lemma frame_loadCancel: "stepsOK R tk D \<Longrightarrow> R a s \<Longrightarrow> loadCancel e s = (c, s') \<Longrightarrow> R a s'"
  by (auto simp: loadCancel_def stepsOK_polls)

lemma frame_leafEval:
  assumes ok: "stepsOK R tk D" and "R a s" "leafEval tk p s = (r, s')"
  shows "R a s'"
  using assms(2,3) by (auto simp: leafEval_def Let_def frame_bumpSt[OF ok])

lemma frame_ttProbe:
  assumes ok: "stepsOK R tk D" and "R a s" "ttProbe tk p ply d \<alpha> \<beta> s = (r, s')"
  shows "R a s'"
  using assms(2,3)
  by (auto simp: ttProbe_def Let_def frame_bumpSt[OF ok] split: option.splits if_splits)

lemma frame_slideReduce:
  assumes ok: "stepsOK R tk D" and "R a s" "slideReduce tk s ply d p = Inr (d', s')"
  shows "R a s'"
  using assms(2,3)
  by (auto simp: slideReduce_def Let_def frame_bumpSt[OF ok] split: option.splits if_splits)

lemma frame_ttPut:
  assumes ok: "stepsOK R tk D" and "R a s" "ttPut e h s = (r, s')"
  shows "R a s'"
  using assms(2,3)
  by (auto simp: ttPut_def loadCancel_def stepsOK_table[OF ok] stepsOK_polls[OF ok]
      split: prod.splits if_splits)

lemma frame_zwStore:
  assumes ok: "stepsOK R tk D" and a: "R a s" and z: "zwStore tk e p d \<alpha> c best s = (r, s')"
  shows "R a s'"
proof -
  obtain i s1 where t: "ttPut e (posHash tk p) s = (i, s1)" by (cases "ttPut e (posHash tk p) s")
  have "R a s1" by (rule frame_ttPut[OF ok a t])
  then show ?thesis using z t
    by (auto simp: zwStore_def writeEntry_def Let_def frame_bumpSt[OF ok] stepsOK_table[OF ok]
        split: option.splits list.splits if_splits)
qed

lemma frame_pvStore:
  assumes ok: "stepsOK R tk D" and a: "R a s" and z: "pvStore tk e p d \<alpha> \<beta> c best s = (r, s')"
  shows "R a s'"
proof -
  obtain i s1 where t: "ttPut e (posHash tk p) s = (i, s1)" by (cases "ttPut e (posHash tk p) s")
  have "R a s1" by (rule frame_ttPut[OF ok a t])
  then show ?thesis using z t
    by (auto simp: pvStore_def writeEntry_def Let_def frame_bumpSt[OF ok] stepsOK_table[OF ok]
        split: option.splits list.splits if_splits)
qed

lemma frame_recordCut:
  "stepsOK R tk D \<Longrightarrow> d \<le> D \<Longrightarrow> R a s \<Longrightarrow> recordCut tk m i d ply s = (r, s') \<Longrightarrow> R a s'"
  using stepsOK_recordCut[of R tk D d a s m i ply] by simp


lemma frame_search:
  fixes R :: "MinimaxAI \<Rightarrow> MinimaxAI \<Rightarrow> bool"
  shows "stepsOK R tk D \<Longrightarrow> d \<le> D \<Longrightarrow> R a s \<Longrightarrow> R a (snd (pvSearch tk e p ply d pv \<alpha> \<beta> s))"
    and "stepsOK R tk D \<Longrightarrow> d \<le> D \<Longrightarrow> R a s \<Longrightarrow> R a (snd (pvLoop tk e p ply d \<beta> mg i best \<alpha> improved s))"
    and "stepsOK R tk D \<Longrightarrow> d \<le> D \<Longrightarrow> R a s \<Longrightarrow> R a (snd (zwSearch tk e p ply d pv \<alpha> ct s))"
    and "stepsOK R tk D \<Longrightarrow> d \<le> D \<Longrightarrow> R a s \<Longrightarrow> R a (snd (zwBody tk e p ply d pv \<alpha> ct te s))"
    and "stepsOK R tk D \<Longrightarrow> d \<le> D \<Longrightarrow> R a s \<Longrightarrow> R a (snd (zwMultiCut tk e ply d \<alpha> ct mg i cuts s))"
    and "stepsOK R tk D \<Longrightarrow> d \<le> D \<Longrightarrow> R a s \<Longrightarrow> R a (snd (zwLoop tk e p ply d \<alpha> ct mg i best s))"
proof (induction tk e p ply d pv \<alpha> \<beta> s and tk e p ply d \<beta> mg i best \<alpha> improved s
    and tk e p ply d pv \<alpha> ct s and tk e p ply d pv \<alpha> ct te s
    and tk e ply d \<alpha> ct mg i cuts s and tk e p ply d \<alpha> ct mg i best s
    rule: pvSearch_pvLoop_zwSearch_zwBody_zwMultiCut_zwLoop.induct)
  case (1 tk e p ply d pv \<alpha> \<beta> s)
  note ok = \<open>stepsOK R tk D\<close> and a = \<open>R a s\<close> and dl = \<open>d \<le> D\<close>
  have dl1: "d - 1 \<le> D" and dl3: "d - 3 \<le> D" and dl12: "d - 1 - 2 \<le> D" using dl by simp_all
  note ih = 1(1)[OF _ refl refl _ refl refl _ ok dl]
  let ?s2 = "if \<beta> = \<alpha> + 1
             then bumpSt (\<lambda>t. t\<lparr>Scout := Scout t + 1\<rparr>) (bumpSt (\<lambda>t. t\<lparr>Visited := Visited t + 1\<rparr>) s)
             else bumpSt (\<lambda>t. t\<lparr>Visited := Visited t + 1\<rparr>) s"
  have a2: "R a ?s2" by (simp add: frame_bumpSt[OF ok] a)
  have l: "R a (snd (leafEval tk p s))"
    by (rule frame_leafEval[OF ok a prod.collapse[symmetric]])
  have pr: "R a (snd (ttProbe tk p ply d \<alpha> \<beta> ?s2))"
    by (rule frame_ttProbe[OF ok a2 prod.collapse[symmetric]])
  show ?case
  proof (cases "\<beta> = \<alpha> + 1")
    case True
    show ?thesis
      apply (subst pvSearch.simps)
      using l pr True
      apply (auto simp: Let_def split: prod.splits sum.splits probe.splits intro: ih[unfolded True])
      done
  next
    case False
    show ?thesis
      apply (subst pvSearch.simps)
      using l pr False
      apply (auto simp: Let_def split: prod.splits sum.splits probe.splits intro: ih)
      done
  qed
next
  case (2 tk e p ply d \<beta> mg i best \<alpha> improved s)
  note ok = \<open>stepsOK R tk D\<close> and a = \<open>R a s\<close> and dl = \<open>d \<le> D\<close>
  have dl1: "d - 1 \<le> D" and dl3: "d - 3 \<le> D" and dl12: "d - 1 - 2 \<le> D" using dl by simp_all
  show ?case
  proof (cases "mgNext mg")
    case None
    then show ?thesis
      using frame_pvStore[OF ok a prod.collapse[symmetric]] by (subst pvLoop.simps) simp
  next
    case (Some x2)
    obtain m child mg' where x2: "x2 = ((m, child), mg')"
      by (cases x2, cases "fst x2") auto
    note nx = Some[unfolded x2]
    show ?thesis
    proof (cases "stackSet s ply m")
      case None
      then show ?thesis using a nx by (subst pvLoop.simps) (simp add: Let_def)
    next
      case (Some s1)
      have a1: "R a s1" by (rule frame_stackSet[OF ok a Some])
      define newpv where "newpv = (if best \<noteq> [] then tl best else [])"
      define r where "r = (if i + 1 > 1 then
                               (case zwSearch tk e child (ply + 1) (d - 1) newpv (- \<alpha> - 1) True s1 of
                                  (Inl er, s2) \<Rightarrow> (Inl er, s2)
                                | (Inr (ms, v), s2) \<Rightarrow>
                                    (if \<alpha> <s - v \<and> - v <s \<beta> then
                                       pvSearch tk e child (ply + 1) (d - 1) newpv (- \<beta>) (- \<alpha>)
                                         (bumpSt (\<lambda>t. t\<lparr>ReSearch := ReSearch t + 1\<rparr>) s2)
                                     else (Inr (ms, v), s2)))
                             else pvSearch tk e child (ply + 1) (d - 1) newpv (- \<beta>) (- \<alpha>) s1)"
      have ar: "R a (snd r)"
      proof (cases "1 < i + 1")
        case True
        have z: "R a (snd (zwSearch tk e child (ply + 1) (d - 1) newpv (- \<alpha> - 1) True s1))"
          unfolding newpv_def by (rule 2(1)[OF nx refl refl refl Some True ok dl1 a1])
        show ?thesis
        proof (cases "zwSearch tk e child (ply + 1) (d - 1) newpv (- \<alpha> - 1) True s1")
          case (Pair xc s2)
          have a2: "R a s2" using z Pair by simp
          show ?thesis
          proof (cases xc)
            case (Inl er)
            then show ?thesis using True Pair a2 by (simp add: r_def)
          next
            case (Inr b)
            obtain ms v where b: "b = (ms, v)" by (cases b)
            show ?thesis
            proof (cases "\<alpha> <s - v \<and> - v <s \<beta>")
              case c: True
              have "R a (snd (pvSearch tk e child (ply + 1) (d - 1) newpv (- \<beta>) (- \<alpha>)
                                         (bumpSt (\<lambda>t. t\<lparr>ReSearch := ReSearch t + 1\<rparr>) s2)))"
                unfolding newpv_def
                by (rule 2(2)[OF nx refl refl refl Some True Pair[unfolded newpv_def, symmetric]
                      Inr b[symmetric] c ok dl1 frame_bumpSt[OF ok a2]])
              then show ?thesis using True Pair Inr b c by (simp add: r_def)
            next
              case False
              then show ?thesis using True Pair Inr b a2 by (auto simp: r_def)
            qed
          qed
        qed
      next
        case False
        show ?thesis
          using False 2(3)[OF nx refl refl refl Some False ok dl1 a1] by (simp add: r_def newpv_def)
      qed
      have unf: "pvLoop tk e p ply d \<beta> mg i best \<alpha> improved s =
                    (case r of
                          (Inl er, s3) \<Rightarrow> (Inl er, s3)
                        | (Inr (ms, v0), s3) \<Rightarrow>
                            (let v = - v0;
                                 best1 = (if best = [] then m # elems ms else best)
                             in if \<alpha> <s v then
                                  (if \<beta> \<le>s v then
                                     (case recordCut tk m (i + 1) d ply s3 of
                                        (Inl er, s4) \<Rightarrow> (Inl er, s4)
                                      | (Inr u, s4) \<Rightarrow>
                                          pvStore tk e p d v \<beta> True (m # elems ms) s4)
                                   else
                                     (case loadCancel e s3 of
                                        (c, s4) \<Rightarrow>
                                          (if c then (Inr (None, 0), s4)
                                           else pvLoop tk e p ply d \<beta> mg' (i + 1)
                                                  (m # elems ms) v True s4)))
                                else
                                  (case loadCancel e s3 of
                                     (c, s4) \<Rightarrow>
                                       (if c then (Inr (None, 0), s4)
                                        else pvLoop tk e p ply d \<beta> mg' (i + 1)
                                               best1 \<alpha> improved s4))))"
        by (subst pvLoop.simps) (simp only: nx Some option.case prod.case Let_def r_def newpv_def)
      obtain xr s3 where r: "r = (xr, s3)" by (cases r)
      have a3: "R a s3" using ar r by simp
      show ?thesis
      proof (cases xr)
        case (Inl er)
        then show ?thesis using a3 r by (simp add: unf)
      next
        case (Inr b)
        obtain ms v0 where b: "b = (ms, v0)" by (cases b)
        obtain c s4 where lc: "loadCancel e s3 = (c, s4)" by (cases "loadCancel e s3")
        have a4: "R a s4" by (rule frame_loadCancel[OF ok a3 lc])
        note rr = r[unfolded r_def newpv_def Inr b, symmetric]
        show ?thesis
        proof (cases "\<alpha> <s - v0")
          case True
          show ?thesis
          proof (cases "\<beta> \<le>s - v0")
            case bc: True
            obtain u s5 where rc: "recordCut tk m (i + 1) d ply s3 = (u, s5)"
              by (cases "recordCut tk m (i + 1) d ply s3")
            have a5: "R a s5" by (rule frame_recordCut[OF ok dl a3 rc])
            show ?thesis
              using True bc rc a5 r Inr b frame_pvStore[OF ok a5 prod.collapse[symmetric]]
              by (cases u) (simp_all add: unf Let_def)
          next
            case bc: False
            have "\<not> c \<Longrightarrow> R a (snd (pvLoop tk e p ply d \<beta> mg' (i + 1) (m # elems ms) (- v0) True s4))"
              by (rule 2(4)[OF nx refl refl refl Some refl rr refl refl refl refl True bc lc[symmetric] _ ok dl a4])
            then show ?thesis using True bc lc a4 r Inr b by (simp add: unf Let_def)
          qed
        next
          case False
          have "\<not> c \<Longrightarrow> R a (snd (pvLoop tk e p ply d \<beta> mg' (i + 1)
                   (if best = [] then m # elems ms else best) \<alpha> improved s4))"
            by (rule 2(5)[OF nx refl refl refl Some refl rr refl refl refl refl False lc[symmetric] _ ok dl a4])
          then show ?thesis using False lc a4 r Inr b by (simp add: unf Let_def)
        qed
      qed
    qed
  qed
next
  case (3 tk e p ply d pv \<alpha> ct s)
  note ok = \<open>stepsOK R tk D\<close> and a = \<open>R a s\<close> and dl = \<open>d \<le> D\<close>
  have dl1: "d - 1 \<le> D" and dl3: "d - 3 \<le> D" and dl12: "d - 1 - 2 \<le> D" using dl by simp_all
  show ?case
  proof (cases "d \<le> 0 \<or> GameOver tk p")
    case True
    then show ?thesis
      using frame_leafEval[OF ok a prod.collapse[symmetric]] by (subst zwSearch.simps) simp
  next
    case nd: False
    define s1 where "s1 = bumpSt (\<lambda>t. t\<lparr>Visited := Visited t + 1, Scout := Scout t + 1\<rparr>) s"
    have a1: "R a s1" unfolding s1_def by (rule frame_bumpSt[OF ok a])
    obtain xa s2 where pr: "ttProbe tk p ply d \<alpha> (\<alpha> + 1) s1 = (xa, s2)"
      by (cases "ttProbe tk p ply d \<alpha> (\<alpha> + 1) s1")
    have a2: "R a s2" by (rule frame_ttProbe[OF ok a1 pr])
    note pr' = pr[unfolded s1_def, symmetric]
    show ?thesis
    proof (cases xa)
      case (Inl er)
      then show ?thesis using nd pr a2
        by (subst zwSearch.simps) (simp add: Let_def s1_def[symmetric])
    next
      case (Inr b)
      show ?thesis
      proof (cases b)
        case (Shortcut m v)
        then show ?thesis using nd pr a2 Inr
          by (subst zwSearch.simps) (simp add: Let_def s1_def[symmetric])
      next
        case (Continue te)
        show ?thesis
        proof (cases "nullMoveOK tk s2 ply d p")
          case nl: (Inl er)
          then show ?thesis using nd pr a2 Inr Continue
            by (subst zwSearch.simps) (simp add: Let_def s1_def[symmetric])
        next
          case nr: (Inr ba)
          show ?thesis
          proof (cases ba)
            case False
            then have nf: "ba = False" by simp
            have "R a (snd (zwBody tk e p ply d pv \<alpha> ct te s2))"
              by (rule 3(4)[OF nd refl pr' Inr Continue nr nf ok dl a2])
            then show ?thesis using nd pr nr nf Inr Continue
              by (subst zwSearch.simps) (simp add: Let_def s1_def[symmetric])
          next
            case True
            then have nt: "ba = True" by simp
            show ?thesis
            proof (cases "stackSet s2 ply passMove")
              case None
              then show ?thesis using nd pr nr nt Inr Continue a2
                by (subst zwSearch.simps) (simp add: Let_def s1_def[symmetric])
            next
              case (Some s3)
              have a3: "R a s3" by (rule frame_stackSet[OF ok a2 Some])
              show ?thesis
              proof (cases "MovePreallocated tk p passMove")
                case mn: None
                have "R a (snd (zwBody tk e p ply d pv \<alpha> ct te s3))"
                  by (rule 3(1)[OF nd refl pr' Inr Continue nr nt Some mn ok dl a3])
                then show ?thesis using nd pr nr nt Inr Continue Some mn
                  by (subst zwSearch.simps) (simp add: Let_def s1_def[symmetric])
              next
                case ms: (Some child)
                define s3' where "s3' = bumpSt (\<lambda>t. t\<lparr>NullSearch := NullSearch t + 1\<rparr>) s3"
                have a3': "R a s3'" unfolding s3'_def by (rule frame_bumpSt[OF ok a3])
                obtain xb s4 where z: "zwSearch tk e child (ply + 1) (d - 3) [] (- \<alpha> - 1) True s3' = (xb, s4)"
                  by (cases "zwSearch tk e child (ply + 1) (d - 3) [] (- \<alpha> - 1) True s3'")
                have "R a (snd (zwSearch tk e child (ply + 1) (d - 3) [] (- \<alpha> - 1) True s3'))"
                  unfolding s3'_def
                  by (rule 3(2)[OF nd refl pr' Inr Continue nr nt Some ms ok dl3 a3'[unfolded s3'_def]])
                then have a4: "R a s4" using z by simp
                note z' = z[unfolded s3'_def, symmetric]
                show ?thesis
                proof (cases xb)
                  case il: (Inl er)
                  then show ?thesis using nd pr nr nt Inr Continue Some ms z a4
                    by (subst zwSearch.simps) (simp add: Let_def s1_def[symmetric] s3'_def[symmetric])
                next
                  case ir: (Inr bb)
                  obtain mv v where bb: "bb = (mv, v)" by (cases bb)
                  show ?thesis
                  proof (cases "\<alpha> + 1 \<le>s - v")
                    case True
                    then show ?thesis
                      using nd pr nr nt Inr Continue Some ms z ir bb frame_bumpSt[OF ok a4]
                      by (subst zwSearch.simps) (simp add: Let_def s1_def[symmetric] s3'_def[symmetric])
                  next
                    case nc: False
                    have "R a (snd (zwBody tk e p ply d pv \<alpha> ct te s4))"
                      by (rule 3(3)[OF nd refl pr' Inr Continue nr nt Some ms z' ir bb[symmetric] nc ok dl a4])
                    then show ?thesis
                      using nd pr nr nt Inr Continue Some ms z ir bb nc
                      by (subst zwSearch.simps) (simp add: Let_def s1_def[symmetric] s3'_def[symmetric])
                  qed
                qed
              qed
            qed
          qed
        qed
      qed
    qed
  qed
next
  case (4 tk e p ply d0 pv \<alpha> ct te s)
  note ok = \<open>stepsOK R tk D\<close> and a = \<open>R a s\<close> and dl0 = \<open>d0 \<le> D\<close>
  show ?case
  proof (cases "slideReduce tk s ply d0 p")
    case (Inl er)
    then show ?thesis using a by (subst zwBody.simps) simp
  next
    case (Inr b)
    obtain d s1 where b: "b = (d, s1)" by (cases b)
    have a1: "R a s1" by (rule frame_slideReduce[OF ok a Inr[unfolded b]])
    have dl: "d \<le> D" using slideReduce_le[OF Inr[unfolded b]] dl0 by simp
    show ?thesis
    proof (cases "inStack s1 ply")
      case False
      then show ?thesis using Inr b a1 by (subst zwBody.simps) simp
    next
      case True
      define mg where "mg = newGenerator tk s1 ply d p te pv"
      show ?thesis
      proof (cases "ct \<and> d > 3 \<and> \<not> NoMultiCut (cfg s1)")
        case mc: True
        define s1' where "s1' = bumpSt (\<lambda>t. t\<lparr>MCSearch := MCSearch t + 1\<rparr>) s1"
        have a1': "R a s1'" unfolding s1'_def by (rule frame_bumpSt[OF ok a1])
        obtain xb s2 where z: "zwMultiCut tk e ply d \<alpha> ct mg 0 0 s1' = (xb, s2)"
          by (cases "zwMultiCut tk e ply d \<alpha> ct mg 0 0 s1'")
        have "R a (snd (zwMultiCut tk e ply d \<alpha> ct mg 0 0 s1'))"
          unfolding s1'_def mg_def
          by (rule 4(1)[OF Inr b[symmetric] _ refl mc ok dl a1'[unfolded s1'_def]]) (simp add: True)
        then have a2: "R a s2" using z by simp
        show ?thesis
        proof (cases xb)
          case il: (Inl er)
          then show ?thesis using Inr b True mc z a2
            by (subst zwBody.simps) (simp add: Let_def mg_def[symmetric] s1'_def[symmetric])
        next
          case ir: (Inr ba)
          show ?thesis
          proof (cases ba)
            case True
            then show ?thesis using Inr b \<open>inStack s1 ply\<close> mc z a2 ir
              by (subst zwBody.simps) (simp add: Let_def mg_def[symmetric] s1'_def[symmetric])
          next
            case False
            then have bf: "ba = False" by simp
            have "R a (snd (zwLoop tk e p ply d \<alpha> ct (mgReset mg) 0 pv s2))"
              unfolding mg_def
              by (rule 4(2)[OF Inr b[symmetric] _ refl mc z[unfolded s1'_def mg_def, symmetric] ir bf ok dl a2])
                (simp add: True)
            then show ?thesis using Inr b \<open>inStack s1 ply\<close> mc z ir bf
              by (subst zwBody.simps) (simp add: Let_def mg_def[symmetric] s1'_def[symmetric])
          qed
        qed
      next
        case mc: False
        have "R a (snd (zwLoop tk e p ply d \<alpha> ct (mgReset mg) 0 pv s1))"
          unfolding mg_def
          by (rule 4(3)[OF Inr b[symmetric] _ refl mc ok dl a1]) (simp add: True)
        then show ?thesis using Inr b True mc
          by (subst zwBody.simps) (auto simp: Let_def mg_def[symmetric])
      qed
    qed
  qed
next
  case (5 tk e ply d \<alpha> ct mg i cuts s)
  note ok = \<open>stepsOK R tk D\<close> and a = \<open>R a s\<close> and dl = \<open>d \<le> D\<close>
  have dl1: "d - 1 \<le> D" and dl3: "d - 3 \<le> D" and dl12: "d - 1 - 2 \<le> D" using dl by simp_all
  show ?case
  proof (cases "mgNext mg")
    case None
    then show ?thesis using a by (subst zwMultiCut.simps) simp
  next
    case (Some x2)
    obtain m child mg' where x2: "x2 = ((m, child), mg')"
      by (cases x2, cases "fst x2") auto
    note nx = Some[unfolded x2]
    show ?thesis
    proof (cases "i < multiCutSearch")
      case False
      then show ?thesis using a nx by (subst zwMultiCut.simps) simp
    next
      case True
      obtain xb s1 where z: "zwSearch tk e child (ply + 1) (d - 1 - 2) [] (- \<alpha> - 1) (\<not> ct) s = (xb, s1)"
        by (cases "zwSearch tk e child (ply + 1) (d - 1 - 2) [] (- \<alpha> - 1) (\<not> ct) s")
      have "R a (snd (zwSearch tk e child (ply + 1) (d - 1 - 2) [] (- \<alpha> - 1) (\<not> ct) s))"
        by (rule 5(1)[OF nx refl refl True ok dl12 a])
      then have a1: "R a s1" using z by simp
      show ?thesis
      proof (cases xb)
        case (Inl er)
        then show ?thesis using nx True z a1 by (subst zwMultiCut.simps) simp
      next
        case (Inr b)
        obtain ms v where b: "b = (ms, v)" by (cases b)
        show ?thesis
        proof (cases "\<alpha> <s - v")
          case c: True
          show ?thesis
          proof (cases "cuts + 1 \<ge> multiCutThreshold")
            case True
            then show ?thesis using nx \<open>i < multiCutSearch\<close> z Inr b c frame_bumpSt[OF ok a1]
              by (subst zwMultiCut.simps) simp
          next
            case th: False
            have "R a (snd (zwMultiCut tk e ply d \<alpha> ct mg' (i + 1) (cuts + 1) s1))"
              by (rule 5(2)[OF nx refl refl True z[symmetric] Inr b[symmetric] c th ok dl a1])
            then show ?thesis using nx \<open>i < multiCutSearch\<close> z Inr b c th
              by (subst zwMultiCut.simps) simp
          qed
        next
          case c: False
          have "R a (snd (zwMultiCut tk e ply d \<alpha> ct mg' (i + 1) cuts s1))"
            by (rule 5(3)[OF nx refl refl True z[symmetric] Inr b[symmetric] c ok dl a1])
          then show ?thesis using nx \<open>i < multiCutSearch\<close> z Inr b c
            by (subst zwMultiCut.simps) simp
        qed
      qed
    qed
  qed
next
  case (6 tk e p ply d \<alpha> ct mg i best s)
  note ok = \<open>stepsOK R tk D\<close> and a = \<open>R a s\<close> and dl = \<open>d \<le> D\<close>
  have dl1: "d - 1 \<le> D" and dl3: "d - 3 \<le> D" and dl12: "d - 1 - 2 \<le> D" using dl by simp_all
  show ?case
  proof (cases "mgNext mg")
    case None
    then show ?thesis
      using frame_zwStore[OF ok a prod.collapse[symmetric]] by (subst zwLoop.simps) simp
  next
    case (Some x2)
    obtain m child mg' where x2: "x2 = ((m, child), mg')"
      by (cases x2, cases "fst x2") auto
    note nx = Some[unfolded x2]
    show ?thesis
    proof (cases "stackSet s ply m")
      case None
      then show ?thesis using a nx by (subst zwLoop.simps) (simp add: Let_def)
    next
      case (Some s1)
      have a1: "R a s1" by (rule frame_stackSet[OF ok a Some])
      define newpv where "newpv = (if best \<noteq> [] then tl best else [])"
      obtain xc s2 where z: "zwSearch tk e child (ply + 1) (d - 1) newpv (- \<alpha> - 1) (\<not> ct) s1 = (xc, s2)"
        by (cases "zwSearch tk e child (ply + 1) (d - 1) newpv (- \<alpha> - 1) (\<not> ct) s1")
      have "R a (snd (zwSearch tk e child (ply + 1) (d - 1) newpv (- \<alpha> - 1) (\<not> ct) s1))"
        unfolding newpv_def by (rule 6(1)[OF nx refl refl refl Some ok dl1 a1])
      then have a2: "R a s2" using z by simp
      show ?thesis
      proof (cases xc)
        case (Inl er)
        then show ?thesis using nx Some z a2
          by (subst zwLoop.simps) (simp add: Let_def newpv_def[symmetric])
      next
        case (Inr b)
        obtain ms v0 where b: "b = (ms, v0)" by (cases b)
        show ?thesis
        proof (cases "\<alpha> <s - v0")
          case True
          obtain u s3 where rc: "recordCut tk m (i + 1) d ply s2 = (u, s3)"
            by (cases "recordCut tk m (i + 1) d ply s2")
          have a3: "R a s3" by (rule frame_recordCut[OF ok dl a2 rc])
          show ?thesis
            using nx Some z Inr b True rc a3 frame_zwStore[OF ok a3 prod.collapse[symmetric]]
            by (subst zwLoop.simps, cases u) (simp_all add: Let_def newpv_def[symmetric])
        next
          case False
          obtain c s3 where lc: "loadCancel e s2 = (c, s3)" by (cases "loadCancel e s2")
          have a3: "R a s3" by (rule frame_loadCancel[OF ok a2 lc])
          have "\<not> c \<Longrightarrow> R a (snd (zwLoop tk e p ply d \<alpha> ct mg' (i + 1)
                  (if best = [] then m # elems ms else best) s3))"
            by (rule 6(2)[OF nx refl refl refl Some z[unfolded newpv_def, symmetric] Inr b[symmetric]
                  refl refl False lc[symmetric] _ ok dl a3])
          then show ?thesis using nx Some z Inr b False lc a3
            by (subst zwLoop.simps) (simp add: Let_def newpv_def[symmetric])
        qed
      qed
    qed
  qed
qed

subsection \<open>The iterative-deepening driver\<close>

text \<open>
  Instants are integers (nanoseconds), a \<open>time.Duration\<close> is a 64-bit count of them:
  \<open>since\<close> is \<open>time.Since\<close>, which saturates. Every reading of the clock takes the next
  answer of the environment. Logging is left out.
\<close>

definition now :: "env \<Rightarrow> MinimaxAI \<Rightarrow> int \<times> MinimaxAI" where
  "now e s = (clock e (ticks s), s\<lparr>ticks := Suc (ticks s)\<rparr>)"

definition satDuration :: "int \<Rightarrow> int" where
  "satDuration x = (if x > 2 ^ 63 - 1 then 2 ^ 63 - 1 else if x < - (2 ^ 63) then - (2 ^ 63) else x)"

definition since :: "env \<Rightarrow> int \<Rightarrow> MinimaxAI \<Rightarrow> int \<times> MinimaxAI" where
  "since e t s = (satDuration (clock e (ticks s) - t), s\<lparr>ticks := Suc (ticks s)\<rparr>)"

definition ageHistory :: "(u64 \<rightharpoonup> int) \<Rightarrow> (u64 \<rightharpoonup> int)" where
  "ageHistory h = (\<lambda>k. map_option (\<lambda>v. quot v 2) (h k))"

text \<open>The end of \<open>Analyze\<close>: \<open>st.Elapsed = time.Since(top); return ms, v, st\<close>.\<close>

definition finish ::
  "env \<Rightarrow> int \<Rightarrow> Move list \<Rightarrow> i64 \<Rightarrow> Stats \<Rightarrow> MinimaxAI \<Rightarrow> (Move list \<times> i64 \<times> Stats) res" where
  "finish e t0 ms v stt s =
     (case since e t0 s of (el, s1) \<Rightarrow> (Inr (ms, v, stt\<lparr>Elapsed := el\<rparr>), s1))"

text \<open>The estimate of the next iteration's branching factor, and the test against the
  deadline made with it at the end of an iteration that started at \<open>start\<close>: whether
  \<open>time.Now().Add(time.Since(start) * time.Duration(branch))\<close> is after the deadline.\<close>

definition branchEstimate :: "int \<Rightarrow> u64 \<Rightarrow> u64" where
  "branchEstimate i branchSum = (if i > 2 then (2 * branchSum) div word_of_int (i - 1) else 20)"

definition timeCutoff :: "env \<Rightarrow> int \<Rightarrow> int \<Rightarrow> int \<Rightarrow> u64 \<Rightarrow> MinimaxAI \<Rightarrow> bool \<times> MinimaxAI" where
  "timeCutoff e start i base branchSum s =
     (if deadline e \<noteq> None \<and> i + base \<noteq> Depth (cfg s) then
        (case now e s of
           (t1, s1) \<Rightarrow>
             (case since e start s1 of
                (el, s2) \<Rightarrow>
                  (t1 + wrap64 (el * sint (branchEstimate i branchSum)) > the (deadline e), s2)))
      else (False, s))"

lemma cfg_now: "cfg (snd (now e s)) = cfg s"
  by (simp add: now_def)

lemma cfg_since: "cfg (snd (since e t s)) = cfg s"
  by (simp add: since_def)

lemma cfg_loadCancel: "cfg (snd (loadCancel e s)) = cfg s"
  by (simp add: loadCancel_def)

lemma cfg_stepsOK: "stepsOK (\<lambda>a b. cfg b = cfg a) tk D"
  by (auto simp: stepsOK_def recordCut_def Let_def split: option.splits)

lemma cfg_pvSearch: "cfg (snd (pvSearch tk e p ply d pv \<alpha> \<beta> s)) = cfg s"
  by (rule frame_search(1)[OF cfg_stepsOK order_refl refl])

text \<open>The loop of \<open>Analyze\<close>, from the iteration \<open>i\<close> on. \<open>stt\<close> is the local \<open>st\<close>, the
  statistics merged so far.\<close>

function deepen ::
  "'p tak \<Rightarrow> env \<Rightarrow> 'p \<Rightarrow> int \<Rightarrow> int \<Rightarrow> int \<Rightarrow> Move list \<Rightarrow> i64 \<Rightarrow> u64 \<Rightarrow> u64 \<Rightarrow> Stats \<Rightarrow> MinimaxAI
     \<Rightarrow> (Move list \<times> i64 \<times> Stats) res" where
  "deepen tk e p base t0 i ms v prevEval branchSum stt s =
     (if i + base \<le> Depth (cfg s) then
        (case now e (s\<lparr>st := zeroStats\<lparr>stDepth := i + base\<rparr>\<rparr>) of
           (start, s1) \<Rightarrow>
             (case pvSearch tk e p 0 (i + base) ms (MinEval - 1) (MaxEval + 1)
                     (s1\<lparr>aiDepth := i + base\<rparr>) of
                (Inl er, s2) \<Rightarrow> (Inl er, s2)
              | (Inr (next, nv), s2) \<Rightarrow>
                  (case (case next of None \<Rightarrow> (True, s2) | Some xs \<Rightarrow> loadCancel e s2) of
                     (stop, s3) \<Rightarrow>
                       (if stop then finish e t0 ms v (stt\<lparr>Canceled := True\<rparr>) s3
                        else
                          (case since e t0 s3 of
                             (timeUsed, s4) \<Rightarrow>
                               (case since e start s4 of
                                  (timeMove, s5) \<Rightarrow>
                                    (if i > 1 \<and> prevEval + 1 = 0 then (Inl DivideByZero, s5)
                                     else
                                       (let stt1 = Merge (st s5) stt;
                                            ms1 = elems next;
                                            branchSum1 =
                                              (if i > 1
                                               then branchSum + Evaluated (st s5) div (prevEval + 1)
                                               else branchSum);
                                            prevEval1 = Evaluated (st s5)
                                        in if WinThreshold <s nv \<or> nv <s - WinThreshold
                                           then finish e t0 ms1 nv stt1 s5
                                           else
                                             (case timeCutoff e start i base branchSum1 s5 of
                                                (stop1, s7) \<Rightarrow>
                                                  (if stop1 then finish e t0 ms1 nv stt1 s7
                                                   else deepen tk e p base t0 (i + 1) ms1 nv
                                                          prevEval1 branchSum1 stt1 s7))))))))))
      else finish e t0 ms v stt s)"
  by pat_completeness auto

lemma cfg_now_eq: "(x, y) = now e s \<Longrightarrow> cfg y = cfg s"
  by (simp add: now_def)

lemma cfg_since_eq: "(x, y) = since e t s \<Longrightarrow> cfg y = cfg s"
  by (simp add: since_def)

lemma cfg_pvSearch_eq: "(x, y) = pvSearch tk e p ply d pv \<alpha> \<beta> s \<Longrightarrow> cfg y = cfg s"
  using cfg_pvSearch[of tk e p ply d pv \<alpha> \<beta> s] by (metis snd_conv)

lemma cfg_timeCutoff_eq: "(x, y) = timeCutoff e start i base bs s \<Longrightarrow> cfg y = cfg s"
  by (auto simp: timeCutoff_def now_def since_def split: if_splits)

lemma cfg_stop_eq:
  "(x, y) = (case next of None \<Rightarrow> (True, s) | Some xs \<Rightarrow> loadCancel e s) \<Longrightarrow> cfg y = cfg s"
  by (auto simp: loadCancel_def split: option.splits)

termination deepen
  apply (relation "measure (\<lambda>(tk, e, p, base, t0, i, ms, v, prevEval, branchSum, stt, s).
            nat (Depth (cfg s) + 1 - (i + base)))")
  apply simp
  apply (drule cfg_now_eq cfg_since_eq cfg_pvSearch_eq cfg_stop_eq cfg_timeCutoff_eq)+
  apply simp
  done

declare deepen.simps [simp del]

text \<open>The start of \<open>Analyze\<close> after the check of the size: the ageing of the history, a
  fresh cancellation flag, the seed of the generator (the clock in seconds when the
  configuration gives none), and the instant \<open>top\<close>.\<close>

definition prepare :: "env \<Rightarrow> MinimaxAI \<Rightarrow> int \<times> MinimaxAI" where
  "prepare e s =
     (let s1 = s\<lparr>history := ageHistory (history s), polls := 0, ticks := 0\<rparr>;
          (seed, s2) = (if Seed (cfg s1) = 0
                        then (case now e s1 of (t, s') \<Rightarrow> (word_of_int (t div 1000000000), s'))
                        else (Seed (cfg s1), s1))
      in now e (s2\<lparr>randSeed := seed, draws := 0\<rparr>))"

text \<open>The base of the deepening and the seed of the principal variation: the depth and
  the move of an exact entry of the table for the root, if there is one.\<close>

definition rootSeed :: "MinimaxAI \<Rightarrow> u64 \<Rightarrow> int \<times> Move list" where
  "rootSeed s h =
     (case ttGet s h of
        None \<Rightarrow> (0, [])
      | Some te \<Rightarrow> (if te_bound te = exactBound then (te_depth te, [te_m te]) else (0, [])))"

definition Analyze ::
  "'p tak \<Rightarrow> env \<Rightarrow> 'p \<Rightarrow> MinimaxAI \<Rightarrow> (Move list \<times> i64 \<times> Stats) res" where
  "Analyze tk e p s =
     (if Size (cfg s) \<noteq> posSize tk p then (Inl WrongSize, s)
      else
        (case prepare e s of
           (t0, s1) \<Rightarrow>
             (case rootSeed s1 (posHash tk p) of
                (base, ms) \<Rightarrow> deepen tk e p base t0 1 ms 0 0 0 zeroStats s1)))"

subsection \<open>GetMove\<close>

text \<open>Go's division of \<open>int64\<close> truncates towards zero.\<close>

definition sdiv64 :: "i64 \<Rightarrow> i64 \<Rightarrow> i64" where
  "sdiv64 x y = word_of_int (quot (sint x) (sint y))"

text \<open>The loop of \<open>GetMove\<close> over the root children. \<open>pvTail\<close> is \<open>pv[1:]\<close>, \<open>i\<close> the running
  total of the weights, \<open>rv\<close> the move selected so far. \<open>rand.Int63n\<close> panics when its
  argument is not positive.\<close>

function getMoveLoop ::
  "'p tak \<Rightarrow> env \<Rightarrow> int \<Rightarrow> Move list \<Rightarrow> i64 \<Rightarrow> i64 \<Rightarrow> 'p moveGenerator \<Rightarrow> i64 \<Rightarrow> Move
     \<Rightarrow> MinimaxAI \<Rightarrow> Move res" where
  "getMoveLoop tk e d pvTail v base mg i rv s =
     (case mgNext mg of
        None \<Rightarrow> (Inr rv, s)
      | Some ((m, child), mg') \<Rightarrow>
          (case stackSet s 0 m of
             None \<Rightarrow> (Inl IndexOutOfRange, s)
           | Some s1 \<Rightarrow>
               (case pvSearch tk e child 1 (d - 1) pvTail (- v - 1) (- base) s1 of
                  (Inl er, s2) \<Rightarrow> (Inl er, s2)
                | (Inr (ms, cv0), s2) \<Rightarrow>
                    (let cv = - cv0
                     in if cv \<le>s base then getMoveLoop tk e d pvTail v base mg' i rv s2
                        else if RandomizeScale (cfg s2) = 0 then (Inl DivideByZero, s2)
                        else
                          (let pts = sdiv64 (cv - base) (RandomizeScale (cfg s2));
                               i1 = i + pts
                           in if i1 \<le>s 0 then (Inl InvalidArgument, s2)
                              else
                                (let r = Int63n e (randSeed s2) (draws s2) i1;
                                     s3 = s2\<lparr>draws := Suc (draws s2)\<rparr>
                                 in getMoveLoop tk e d pvTail v base mg' i1
                                      (if r \<le>s pts then m else rv) s3))))))"
  by pat_completeness auto

termination
  by (relation "measure (\<lambda>(tk, e, d, pvTail, v, base, mg, i, rv, s). length (mgRest mg))")
     (auto dest: mgNext_shorter)

declare getMoveLoop.simps [simp del]

definition GetMove :: "'p tak \<Rightarrow> env \<Rightarrow> 'p \<Rightarrow> MinimaxAI \<Rightarrow> Move res" where
  "GetMove tk e p s =
     (case Analyze tk e p s of
        (Inl er, s1) \<Rightarrow> (Inl er, s1)
      | (Inr (pv, v, stt), s1) \<Rightarrow>
          (case pv of
             [] \<Rightarrow> (Inl IndexOutOfRange, s1)
           | m0 # pvTail \<Rightarrow>
               (if RandomizeWindow (cfg s1) = 0 then (Inr m0, s1)
                else if WinThreshold <s v \<or> v <s - WinThreshold then (Inr m0, s1)
                else getMoveLoop tk e (stDepth stt) pvTail v (v - RandomizeWindow (cfg s1))
                       (newGenerator tk s1 0 (stDepth stt) p None pv) 0 m0 s1)))"

subsection \<open>The selection of GetMove as the spec words it\<close>




subsection \<open>The pre-scan of the multi-cut as the spec words it\<close>





section \<open>A small game for the examples\<close>

text \<open>
  Positions of a game given as a tree: a hash, whether the game is over, the value of the
  evaluator, the reserve of both sides, and the moves with the positions they lead to.
  \<open>toy\<close> supplies the operations of package tak on it; its generator tries the moves
  in the order of the tree.
\<close>

datatype pos = Pos (pid: u64) (pover: bool) (pscore: i64) (pstones: int)
  (pkids: "(Move \<times> pos) list")

definition place :: "int \<Rightarrow> int \<Rightarrow> Move" where
  "place x y = \<lparr>mX = x, mY = y, mType = PlaceFlat, mSlides = []\<rparr>"

definition toy :: "pos tak" where
  "toy = \<lparr>posSize = (\<lambda>p. 3), posHash = pid, GameOver = pover,
     MovePreallocated = (\<lambda>p m. map_of (pkids p) m),
     WhiteStones = pstones, BlackStones = pstones,
     White = (\<lambda>p. 0), Black = (\<lambda>p. 0), lenStacks = (\<lambda>p. 9),
     Height = (\<lambda>p. replicate 9 0),
     moveHash = (\<lambda>m. word_of_int (mX m + 3 * mY m + 1)),
     IsSlide = (\<lambda>m. False), Dest = (\<lambda>m. (mX m, mY m)),
     Popcount = (\<lambda>w. 0), evaluate = pscore,
     orderMoves = (\<lambda>s ply d p te pv. map fst (pkids p))\<rparr>"

definition leaf :: "u64 \<Rightarrow> i64 \<Rightarrow> pos" where
  "leaf h v = Pos h False v 0 []"

text \<open>An environment that never cancels, has no deadline, and whose clock advances by
  one nanosecond at each reading.\<close>

definition quiet :: env where
  "quiet = \<lparr>cancelAt = (\<lambda>k. False), clock = (\<lambda>k. int k), deadline = None,
     Int63n = (\<lambda>seed k n. 0)\<rparr>"

definition cfg0 :: MinimaxConfig where
  "cfg0 = \<lparr>Size = 3, Depth = 2, Debug = 0, Seed = 1, RandomizeWindow = 0, RandomizeScale = 0,
     NoSort = False, NoTable = False, NoNullMove = False, NoExtendForces = False,
     NoReduceSlides = False, NoMultiCut = False\<rparr>"

definition cfg5 :: MinimaxConfig where
  "cfg5 = cfg0\<lparr>Size := 5\<rparr>"

text \<open>An engine whose table holds, in the primary slot of the hash 1, an exact entry of
  depth 5 for that very hash.\<close>

definition deepEntry :: tableEntry where
  "deepEntry = \<lparr>te_hash = 1, te_depth = 5, te_value = 7, te_bound = exactBound, te_m = place 0 0\<rparr>"

definition sameKey :: MinimaxAI where
  "sameKey = (NewMinimax cfg0)\<lparr>table := (\<lambda>i. zeroEntry)(slot1 1 := deepEntry)\<rparr>"

lemma slots_of_1: "slot1 1 = 1" "slot2 1 = 0x583EB"
  by (simp_all add: slot1_def slot2_def tableSize_def hashMul_def)

text \<open>A position at which the null move is admissible: three stones in reserve on both
  sides, an empty board of nine squares, and a pass that applies. After the pass the
  opponent stands at \<open>-5\<close>.\<close>

definition nullKid :: pos where
  "nullKid = leaf 11 (- 5)"

definition nullPos :: pos where
  "nullPos = Pos 10 False 0 3 [(passMove, nullKid), (place 0 0, leaf 12 0)]"

text \<open>A game of two plies: the first move is worth 5 to the side to move, the second
  is worth 2. \<open>dice3\<close> and \<open>dice1\<close> are environments whose random generator always
  answers 3, or 1; \<open>cfgR\<close> randomizes within a window of 5.\<close>

definition g1 :: pos where
  "g1 = Pos 1 False 0 0
     [(place 0 0, Pos 2 False 0 0 [(place 1 0, leaf 4 5), (place 2 0, leaf 5 7)]),
      (place 0 1, Pos 3 False 0 0 [(place 1 1, leaf 6 2), (place 2 1, leaf 7 9)])]"






text \<open>The equations that evaluate a search on a position of the small game.\<close>

lemmas eval_defs =
  pvSearch.simps pvLoop.simps zwSearch.simps zwBody.simps zwLoop.simps zwMultiCut.simps
  deepen.simps getMoveLoop.simps Analyze_def prepare_def rootSeed_def GetMove_def
  toy_def quiet_def cfg0_def NewMinimax_def leaf_def place_def
  leafEval_def ttProbe_def ttGet_def ttPut_def slot1_def slot2_def tableSize_def hashMul_def
  inStack_def stackSet_def stackGet_def newGenerator_def mgNext_def mgReset_def
  List.map_filter_def bumpSt_def zeroStats_def zeroEntry_def zeroMove_def passMove_def
  maxDepth_def MinEval_def MaxEval_def WinThreshold_def pvStore_def zwStore_def writeEntry_def
  loadCancel_def nullMoveOK_def slideReduce_def recordCut_def countCut_def addHistory_def
  counter_def shl1_def elems_def teSuffices_def Let_def multiCutSearch_def multiCutThreshold_def
  now_def since_def satDuration_def finish_def ageHistory_def Merge_def branchEstimate_def
  timeCutoff_def
  wrap64_def sdiv64_def quot_def word_sless_alt word_sle_eq

text \<open>An environment with a deadline at 50 ns whose clock advances by 10 ns at each
  reading, and the statistics of the searches of the game of two plies to the depths 1
  and 2.\<close>

definition hurried :: env where
  "hurried = \<lparr>cancelAt = (\<lambda>k. False), clock = (\<lambda>k. 10 * int k), deadline = Some 50,
     Int63n = (\<lambda>seed k n. 0)\<rparr>"

definition depth1Stats :: Stats where
  "depth1Stats = zeroStats\<lparr>stDepth := 1, Elapsed := 60, Evaluated := 2, Visited := 1\<rparr>"

definition depth2Stats :: Stats where
  "depth2Stats = zeroStats\<lparr>stDepth := 2, Elapsed := 70, Evaluated := 5, Scout := 1, Visited := 4,
     CutNodes := 1, Cut0 := 1, TTHits := 1\<rparr>"

text \<open>An environment whose context is done from the start.\<close>

definition cancelled :: env where
  "cancelled = quiet\<lparr>cancelAt := (\<lambda>k. True)\<rparr>"



section \<open>Properties\<close>

text \<open>
  C5. A table entry suffices for depth \<open>d\<close> and window \<open>(\<alpha>, \<beta>)\<close> exactly when either its
  depth is at least \<open>d\<close> and its bound is EXACT, or UPPER with a value below \<open>\<alpha>\<close>, or LOWER
  with a value above \<open>\<beta>\<close>; or its bound is EXACT and the absolute value of its value is
  above \<open>WIN_THRESHOLD = 2^29\<close>, whatever its depth.
\<close>

theorem teSuffices_iff:
  "teSuffices te d \<alpha> \<beta> \<longleftrightarrow>
     (te_depth te \<ge> d \<and>
        (te_bound te = exactBound
         \<or> (te_bound te = upperBound \<and> sint (te_value te) < sint \<alpha>)
         \<or> (te_bound te = lowerBound \<and> sint (te_value te) > sint \<beta>)))
     \<or> (te_bound te = exactBound \<and> \<bar>sint (te_value te)\<bar> > 2 ^ 29)"
proof -
  have w: "sint WinThreshold = 2 ^ 29" "sint (- WinThreshold) = - (2 ^ 29)"
    by (simp_all add: WinThreshold_def)
  have a: "\<bar>sint (te_value te)\<bar> > 2 ^ 29 \<longleftrightarrow>
      (WinThreshold <s te_value te \<or> te_value te <s - WinThreshold)"
    unfolding word_sless_alt w by linarith
  show ?thesis
    unfolding teSuffices_def a by (auto simp: word_sless_alt)
qed

text \<open>
  C1, as the code has it. On a write with the table enabled and cancellation not set,
  \<open>ttPut\<close> copies the entry of the primary slot to the secondary slot whenever the primary
  slot is occupied (its hash is not zero), be it by another key or by the key \<open>h\<close>
  itself; only an empty primary slot is not copied. No other slot changes, and the primary
  slot is returned for the caller to overwrite.
\<close>

theorem ttPut_copy_rule:
  assumes "\<not> NoTable (cfg s)" and "\<not> cancelAt e (polls s)"
  shows "fst (ttPut e h s) = Some (slot1 h)
    \<and> table (snd (ttPut e h s)) (slot2 h) =
        (if te_hash (table s (slot1 h)) \<noteq> 0 then table s (slot1 h) else table s (slot2 h))
    \<and> (\<forall>j. j \<noteq> slot2 h \<longrightarrow> table (snd (ttPut e h s)) j = table s j)"
  using assms by (simp add: ttPut_def loadCancel_def)

theorem ttPut_copy_rule_witness:
  "fst (ttPut quiet 1 sameKey) = Some 1
   \<and> table (snd (ttPut quiet 1 sameKey)) 0x583EB = deepEntry
   \<and> table (snd (ttPut quiet 1 sameKey)) 1 = deepEntry"
proof -
  have a: "\<not> NoTable (cfg sameKey)" "\<not> cancelAt quiet (polls sameKey)"
    by (simp_all add: sameKey_def NewMinimax_def cfg0_def quiet_def)
  have t: "table sameKey 1 = deepEntry"
    by (simp add: sameKey_def slots_of_1)
  show ?thesis
    using ttPut_copy_rule[OF a, of 1] t by (simp add: slots_of_1 deepEntry_def)
qed

text \<open>The claim as it is stated fails: the primary slot of the hash 1 holds an entry for
  the hash 1 itself, the secondary slot is empty, and the write copies the entry to the
  secondary slot all the same.\<close>

theorem ttPut_same_key_copies:
  "\<not> NoTable (cfg sameKey) \<and> \<not> cancelAt quiet (polls sameKey)
   \<and> te_hash (table sameKey (slot1 1)) = 1
   \<and> table sameKey (slot2 1) = zeroEntry
   \<and> table (snd (ttPut quiet 1 sameKey)) (slot2 1) = deepEntry"
  by (simp add: ttPut_def loadCancel_def sameKey_def NewMinimax_def cfg0_def quiet_def
      slots_of_1 deepEntry_def)

text \<open>
  C8. \<open>Analyze\<close> on a position whose size differs from the size of the configuration
  fails with the configuration error (the panic "wrong size"), and the engine it leaves is
  the engine it was given: history, table, stack and statistics are untouched.
\<close>

theorem Analyze_wrong_size:
  "Size (cfg s) \<noteq> posSize tk p \<Longrightarrow> Analyze tk e p s = (Inl WrongSize, s)"
  by (simp add: Analyze_def)

theorem Analyze_wrong_size_witness:
  "Analyze toy quiet (Pos 1 False 0 0 []) (NewMinimax cfg5) = (Inl WrongSize, NewMinimax cfg5)"
proof -
  have "Size (cfg (NewMinimax cfg5)) \<noteq> posSize toy (Pos 1 False 0 0 [])"
    by (simp add: NewMinimax_def cfg5_def cfg0_def toy_def)
  then show ?thesis by (rule Analyze_wrong_size)
qed

text \<open>
  C9. The store of \<open>zwSearch\<close> is unconditional: with the table enabled, cancellation not
  set and a best move to store, the primary slot ends up holding the current hash, the
  current (possibly slide-reduced) depth \<open>d\<close>, the value \<open>\<alpha>\<close> and the bound LOWER (after a
  cut) or UPPER, whatever entry was there, so also one for the same hash of greater depth.
  The store of \<open>pvSearch\<close> leaves a same-hash entry of greater depth as it is, and
  overwrites an entry of another hash, and a same-hash entry whose depth is at most \<open>d\<close>.
  The main loop of \<open>zwSearch\<close> ends in this store when the generator is exhausted.
\<close>

theorem zwStore_unconditional:
  "(\<not> NoTable (cfg s) \<and> \<not> cancelAt e (polls s) \<and> best = b # bs \<longrightarrow>
      table (snd (zwStore tk e p d \<alpha> didCut best s)) (slot1 (posHash tk p)) =
        \<lparr>te_hash = posHash tk p, te_depth = d, te_value = \<alpha>,
         te_bound = (if didCut then lowerBound else upperBound), te_m = b\<rparr>)
   \<and> (\<not> NoTable (cfg s) \<and> \<not> cancelAt e (polls s) \<and> best = b # bs
        \<and> te_hash (table s (slot1 (posHash tk p))) = posHash tk p
        \<and> d < te_depth (table s (slot1 (posHash tk p))) \<longrightarrow>
      table (snd (pvStore tk e p d \<alpha> \<beta> improved best s)) (slot1 (posHash tk p)) =
        table s (slot1 (posHash tk p)))
   \<and> (\<not> NoTable (cfg s) \<and> \<not> cancelAt e (polls s) \<and> best = b # bs
        \<and> (te_hash (table s (slot1 (posHash tk p))) \<noteq> posHash tk p
             \<or> te_depth (table s (slot1 (posHash tk p))) \<le> d) \<longrightarrow>
      table (snd (pvStore tk e p d \<alpha> \<beta> improved best s)) (slot1 (posHash tk p)) =
        \<lparr>te_hash = posHash tk p, te_depth = d, te_value = \<alpha>,
         te_bound = (if \<not> improved then upperBound
                     else if \<beta> \<le>s \<alpha> then lowerBound else exactBound),
         te_m = b\<rparr>)
   \<and> (mgNext mg = None \<longrightarrow>
        zwLoop tk e p ply d \<alpha> ct mg i best s = zwStore tk e p d \<alpha> False best s)"
proof (intro conjI impI)
  assume a: "\<not> NoTable (cfg s) \<and> \<not> cancelAt e (polls s) \<and> best = b # bs"
  then show "table (snd (zwStore tk e p d \<alpha> didCut best s)) (slot1 (posHash tk p)) =
        \<lparr>te_hash = posHash tk p, te_depth = d, te_value = \<alpha>,
         te_bound = (if didCut then lowerBound else upperBound), te_m = b\<rparr>"
    by (simp add: zwStore_def ttPut_def loadCancel_def writeEntry_def bumpSt_def Let_def)
next
  assume a: "\<not> NoTable (cfg s) \<and> \<not> cancelAt e (polls s) \<and> best = b # bs
        \<and> te_hash (table s (slot1 (posHash tk p))) = posHash tk p
        \<and> d < te_depth (table s (slot1 (posHash tk p)))"
  then show "table (snd (pvStore tk e p d \<alpha> \<beta> improved best s)) (slot1 (posHash tk p)) =
        table s (slot1 (posHash tk p))"
    by (auto simp: pvStore_def ttPut_def loadCancel_def writeEntry_def bumpSt_def Let_def)
next
  assume a: "\<not> NoTable (cfg s) \<and> \<not> cancelAt e (polls s) \<and> best = b # bs
        \<and> (te_hash (table s (slot1 (posHash tk p))) \<noteq> posHash tk p
             \<or> te_depth (table s (slot1 (posHash tk p))) \<le> d)"
  then show "table (snd (pvStore tk e p d \<alpha> \<beta> improved best s)) (slot1 (posHash tk p)) =
        \<lparr>te_hash = posHash tk p, te_depth = d, te_value = \<alpha>,
         te_bound = (if \<not> improved then upperBound
                     else if \<beta> \<le>s \<alpha> then lowerBound else exactBound),
         te_m = b\<rparr>"
    by (auto simp: pvStore_def ttPut_def loadCancel_def writeEntry_def bumpSt_def Let_def)
next
  assume "mgNext mg = None"
  then show "zwLoop tk e p ply d \<alpha> ct mg i best s = zwStore tk e p d \<alpha> False best s"
    by (subst zwLoop.simps) simp
qed

theorem zwStore_unconditional_witness:
  "te_depth (table sameKey 1) = 5
   \<and> table (snd (zwStore toy quiet (leaf 1 0) 1 10 False [place 1 1] sameKey)) 1 =
        \<lparr>te_hash = 1, te_depth = 1, te_value = 10, te_bound = upperBound, te_m = place 1 1\<rparr>
   \<and> table (snd (pvStore toy quiet (leaf 1 0) 1 10 20 False [place 1 1] sameKey)) 1 = deepEntry"
proof -
  have a: "\<not> NoTable (cfg sameKey)" "\<not> cancelAt quiet (polls sameKey)"
    by (simp_all add: sameKey_def NewMinimax_def cfg0_def quiet_def)
  have h: "posHash toy (leaf 1 0) = 1" by (simp add: toy_def leaf_def)
  have t: "table sameKey 1 = deepEntry" by (simp add: sameKey_def slots_of_1)
  show ?thesis
    using zwStore_unconditional[of sameKey quiet "[place 1 1]" "place 1 1" "[]" toy "leaf 1 0" 1 10 False 20 False]
      a t
    by (simp add: h slots_of_1 deepEntry_def)
qed

text \<open>
  C4. The null move is admissible exactly when null-move pruning is not disabled,
  \<open>ply > 0\<close>, \<open>depth \<ge> 3\<close>, the move of the frame \<open>ply - 1\<close> is not a pass, both sides have
  at least three stones in reserve and \<open>popcount(occupied) + 3\<close> is below the number of
  squares. When \<open>zwSearch\<close> reaches the null move (the game is not over and the table gave
  no shortcut), the move is admissible and the pass applies, the zero-window search of the
  child at \<open>depth - 3\<close> with \<open>cut = true\<close> is run; if its negated value is at least
  \<open>\<alpha> + 1\<close>, \<open>zwSearch\<close> returns \<open>nil\<close> and that negated value at once: the engine it leaves
  is the one the null search left, with the null cut counted.
\<close>

theorem nullMove_rule:
  "(nullMoveOK tk s ply d p = Inr True \<longleftrightarrow>
      \<not> NoNullMove (cfg s) \<and> ply > 0 \<and> d \<ge> 3
      \<and> (\<exists>prev. stackGet s (ply - 1) = Some prev \<and> mType prev \<noteq> Pass)
      \<and> WhiteStones tk p \<ge> 3 \<and> BlackStones tk p \<ge> 3
      \<and> Popcount tk (White tk p OR Black tk p) + 3 < lenStacks tk p)
   \<and> (\<not> GameOver tk p
       \<and> ttProbe tk p ply d \<alpha> (\<alpha> + 1)
            (bumpSt (\<lambda>t. t\<lparr>Visited := Visited t + 1, Scout := Scout t + 1\<rparr>) s)
          = (Inr (Continue te), s2)
       \<and> nullMoveOK tk s2 ply d p = Inr True
       \<and> stackSet s2 ply passMove = Some s3
       \<and> MovePreallocated tk p passMove = Some child
       \<and> zwSearch tk e child (ply + 1) (d - 3) [] (- \<alpha> - 1) True
            (bumpSt (\<lambda>t. t\<lparr>NullSearch := NullSearch t + 1\<rparr>) s3) = (Inr (ms, v), s4)
       \<and> \<alpha> + 1 \<le>s - v
       \<longrightarrow> zwSearch tk e p ply d pv \<alpha> ct s
           = (Inr (None, - v), bumpSt (\<lambda>t. t\<lparr>NullCut := NullCut t + 1\<rparr>) s4))"
proof (intro conjI impI)
  show "nullMoveOK tk s ply d p = Inr True \<longleftrightarrow>
      \<not> NoNullMove (cfg s) \<and> ply > 0 \<and> d \<ge> 3
      \<and> (\<exists>prev. stackGet s (ply - 1) = Some prev \<and> mType prev \<noteq> Pass)
      \<and> WhiteStones tk p \<ge> 3 \<and> BlackStones tk p \<ge> 3
      \<and> Popcount tk (White tk p OR Black tk p) + 3 < lenStacks tk p"
    by (auto simp: nullMoveOK_def stackGet_def inStack_def split: option.splits)
next
  assume a: "\<not> GameOver tk p
       \<and> ttProbe tk p ply d \<alpha> (\<alpha> + 1)
            (bumpSt (\<lambda>t. t\<lparr>Visited := Visited t + 1, Scout := Scout t + 1\<rparr>) s)
          = (Inr (Continue te), s2)
       \<and> nullMoveOK tk s2 ply d p = Inr True
       \<and> stackSet s2 ply passMove = Some s3
       \<and> MovePreallocated tk p passMove = Some child
       \<and> zwSearch tk e child (ply + 1) (d - 3) [] (- \<alpha> - 1) True
            (bumpSt (\<lambda>t. t\<lparr>NullSearch := NullSearch t + 1\<rparr>) s3) = (Inr (ms, v), s4)
       \<and> \<alpha> + 1 \<le>s - v"
  then have "3 \<le> d"
    by (auto simp: nullMoveOK_def split: if_splits option.splits)
  with a show "zwSearch tk e p ply d pv \<alpha> ct s
           = (Inr (None, - v), bumpSt (\<lambda>t. t\<lparr>NullCut := NullCut t + 1\<rparr>) s4)"
    by (subst zwSearch.simps) (simp add: Let_def)
qed

theorem nullMove_rule_witness:
  "nullMoveOK toy (NewMinimax cfg0) 1 3 nullPos = Inr True
   \<and> fst (zwSearch toy quiet nullPos 1 3 [] 0 True (NewMinimax cfg0)) = Inr (None, 5)"
proof -
  define s1 where "s1 = bumpSt (\<lambda>t. t\<lparr>Visited := Visited t + 1, Scout := Scout t + 1\<rparr>) (NewMinimax cfg0)"
  have sm: "stackM s1 = replicate 15 zeroMove" "cfg s1 = cfg (NewMinimax cfg0)"
    by (simp_all add: s1_def bumpSt_def NewMinimax_def maxDepth_def)
  have pr: "ttProbe toy nullPos 1 3 0 (0 + 1) s1 = (Inr (Continue None), s1)"
    by (simp add: ttProbe_def ttGet_def s1_def bumpSt_def NewMinimax_def cfg0_def toy_def
        nullPos_def zeroEntry_def)
  have ok0: "nullMoveOK toy (NewMinimax cfg0) 1 3 nullPos = Inr True"
    by (simp add: nullMove_rule[THEN conjunct1] stackGet_def inStack_def NewMinimax_def cfg0_def
        maxDepth_def zeroMove_def toy_def nullPos_def)
  have ok1: "nullMoveOK toy s1 1 3 nullPos = Inr True"
    by (simp add: nullMove_rule[THEN conjunct1] stackGet_def inStack_def sm NewMinimax_def cfg0_def
        zeroMove_def toy_def nullPos_def)
  obtain s3 where ss: "stackSet s1 1 passMove = Some s3"
    by (simp add: stackSet_def inStack_def sm)
  have mv: "MovePreallocated toy nullPos passMove = Some nullKid"
    by (simp add: toy_def nullPos_def)
  obtain s4 where z: "zwSearch toy quiet nullKid (1 + 1) (3 - 3) [] (- 0 - 1) True
            (bumpSt (\<lambda>t. t\<lparr>NullSearch := NullSearch t + 1\<rparr>) s3) = (Inr (None, - 5), s4)"
    by (simp add: zwSearch.simps leafEval_def toy_def nullKid_def leaf_def)
  have g: "\<not> GameOver toy nullPos" by (simp add: toy_def nullPos_def)
  have c: "(0 :: i64) + 1 \<le>s - (- 5)" by (simp add: word_sle_eq)
  show ?thesis
    using nullMove_rule[THEN conjunct2, rule_format, of toy nullPos 1 3 0 "NewMinimax cfg0" None s1 s3 nullKid
        quiet None "- 5" s4 "[]" True] g pr[unfolded s1_def] ok1 ss mv z c ok0
    by (simp add: s1_def)
qed




text \<open>
  C3, as the code has it. In \<open>Analyze\<close> the test against the deadline is made at the end of
  every completed iteration \<open>i \<ge> 1\<close> that proved no win, when a deadline is set and the
  iteration is not the last one (\<open>i + base\<close> is not the configured depth). The cost of the
  next iteration is estimated as the time since the start of this one times a branching
  estimate: the constant 20 for \<open>i \<le> 2\<close>, and \<open>2 * branchSum / (i - 1)\<close> in unsigned
  integer arithmetic for \<open>i > 2\<close>, where \<open>branchSum\<close> adds
  \<open>evaluated[k] / (evaluated[k-1] + 1)\<close> for the iterations \<open>k > 1\<close>. The deepening stops
  when the instant now plus the estimate is after the deadline, also at \<open>i = 1\<close> and
  \<open>i = 2\<close>.
\<close>

theorem deadline_test_rule:
  "(fst (timeCutoff e start i base bs s) \<longleftrightarrow>
      (\<exists>dl. deadline e = Some dl \<and> i + base \<noteq> Depth (cfg s)
         \<and> dl < clock e (ticks s)
                + wrap64 (satDuration (clock e (Suc (ticks s)) - start)
                          * sint (if i > 2 then (2 * bs) div word_of_int (i - 1) else (20 :: u64)))))
   \<and> (i + base \<le> Depth (cfg s)
       \<and> now e (s\<lparr>st := zeroStats\<lparr>stDepth := i + base\<rparr>\<rparr>) = (start, s1)
       \<and> pvSearch tk e p 0 (i + base) ms (MinEval - 1) (MaxEval + 1) (s1\<lparr>aiDepth := i + base\<rparr>)
           = (Inr (Some nx, nv), s2)
       \<and> \<not> cancelAt e (polls s2)
       \<and> \<not> (i > 1 \<and> prevEval + 1 = 0)
       \<and> \<not> (WinThreshold <s nv \<or> nv <s - WinThreshold)
       \<and> s5 = snd (since e start (snd (since e t0 (snd (loadCancel e s2)))))
       \<and> bs1 = (if i > 1 then bs + Evaluated (st s5) div (prevEval + 1) else bs)
       \<longrightarrow>
       deepen tk e p base t0 i ms v prevEval bs stt s =
         (if fst (timeCutoff e start i base bs1 s5)
          then finish e t0 nx nv (Merge (st s5) stt) (snd (timeCutoff e start i base bs1 s5))
          else deepen tk e p base t0 (i + 1) nx nv (Evaluated (st s5)) bs1 (Merge (st s5) stt)
                 (snd (timeCutoff e start i base bs1 s5))))"
proof (intro conjI impI)
  show "fst (timeCutoff e start i base bs s) \<longleftrightarrow>
      (\<exists>dl. deadline e = Some dl \<and> i + base \<noteq> Depth (cfg s)
         \<and> dl < clock e (ticks s)
                + wrap64 (satDuration (clock e (Suc (ticks s)) - start)
                          * sint (if i > 2 then (2 * bs) div word_of_int (i - 1) else (20 :: u64))))"
    by (auto simp: timeCutoff_def now_def since_def branchEstimate_def)
next
  assume a: "i + base \<le> Depth (cfg s)
       \<and> now e (s\<lparr>st := zeroStats\<lparr>stDepth := i + base\<rparr>\<rparr>) = (start, s1)
       \<and> pvSearch tk e p 0 (i + base) ms (MinEval - 1) (MaxEval + 1) (s1\<lparr>aiDepth := i + base\<rparr>)
           = (Inr (Some nx, nv), s2)
       \<and> \<not> cancelAt e (polls s2)
       \<and> \<not> (i > 1 \<and> prevEval + 1 = 0)
       \<and> \<not> (WinThreshold <s nv \<or> nv <s - WinThreshold)
       \<and> s5 = snd (since e start (snd (since e t0 (snd (loadCancel e s2)))))
       \<and> bs1 = (if i > 1 then bs + Evaluated (st s5) div (prevEval + 1) else bs)"
  then show "deepen tk e p base t0 i ms v prevEval bs stt s =
         (if fst (timeCutoff e start i base bs1 s5)
          then finish e t0 nx nv (Merge (st s5) stt) (snd (timeCutoff e start i base bs1 s5))
          else deepen tk e p base t0 (i + 1) nx nv (Evaluated (st s5)) bs1 (Merge (st s5) stt)
                 (snd (timeCutoff e start i base bs1 s5)))"
    by (subst deepen.simps)
       (auto simp: Let_def loadCancel_def since_def elems_def split: prod.splits)
qed

theorem deadline_test_rule_witness:
  "fst (timeCutoff hurried 10 1 0 0 ((NewMinimax cfg0)\<lparr>ticks := 4\<rparr>))
   \<and> fst (deepen toy hurried g1 0 0 1 [] 0 0 0 zeroStats ((NewMinimax cfg0)\<lparr>ticks := 1\<rparr>))
       = Inr ([place 0 0], 0, depth1Stats)"
proof -
  let ?s = "(NewMinimax cfg0)\<lparr>ticks := 1\<rparr>"
  define s1 where "s1 = snd (now hurried (?s\<lparr>st := zeroStats\<lparr>stDepth := 1 + 0\<rparr>\<rparr>))"
  define s2 where "s2 = snd (pvSearch toy hurried g1 0 (1 + 0) [] (MinEval - 1) (MaxEval + 1)
                              (s1\<lparr>aiDepth := 1 + 0\<rparr>))"
  define s5 where "s5 = snd (since hurried 10 (snd (since hurried 0 (snd (loadCancel hurried s2)))))"
  have t: "fst (timeCutoff hurried 10 1 0 0 ((NewMinimax cfg0)\<lparr>ticks := 4\<rparr>))"
    by (subst deadline_test_rule[THEN conjunct1])
       (simp add: hurried_def NewMinimax_def cfg0_def wrap64_def satDuration_def)
  have n: "now hurried (?s\<lparr>st := zeroStats\<lparr>stDepth := 1 + 0\<rparr>\<rparr>) = (10, s1)"
    by (simp add: s1_def now_def hurried_def)
  have "fst (pvSearch toy hurried g1 0 (1 + 0) [] (MinEval - 1) (MaxEval + 1) (s1\<lparr>aiDepth := 1 + 0\<rparr>))
        = Inr (Some [place 0 0], 0)"
    by (simp add: s1_def eval_defs g1_def hurried_def)
  then have pv: "pvSearch toy hurried g1 0 (1 + 0) [] (MinEval - 1) (MaxEval + 1) (s1\<lparr>aiDepth := 1 + 0\<rparr>)
        = (Inr (Some [place 0 0], 0), s2)"
    unfolding s2_def by (metis prod.collapse)
  have d: "(1 :: int) + 0 \<le> Depth (cfg ?s)"
    by (simp add: NewMinimax_def cfg0_def)
  have c: "\<not> cancelAt hurried (polls s2)" by (simp add: hurried_def)
  have w: "\<not> (WinThreshold <s (0 :: i64) \<or> (0 :: i64) <s - WinThreshold)"
    by (simp add: WinThreshold_def word_sless_alt)
  have "deepen toy hurried g1 0 0 1 [] 0 0 0 zeroStats ?s =
         (if fst (timeCutoff hurried 10 1 0 0 s5)
          then finish hurried 0 [place 0 0] 0 (Merge (st s5) zeroStats) (snd (timeCutoff hurried 10 1 0 0 s5))
          else deepen toy hurried g1 0 0 (1 + 1) [place 0 0] 0 (Evaluated (st s5)) 0 (Merge (st s5) zeroStats)
                 (snd (timeCutoff hurried 10 1 0 0 s5)))"
    using deadline_test_rule[THEN conjunct2, rule_format, of 1 0 ?s hurried 10 s1 toy g1 "[]"
        "[place 0 0]" 0 s2 0 s5 0 0 0 0 zeroStats] d n pv c w
    by (simp add: s5_def)
  then show ?thesis
    using t by (simp add: s5_def s2_def s1_def eval_defs g1_def hurried_def depth1Stats_def)
qed

text \<open>The claim as it is stated fails: with a deadline at 50 ns, \<open>Analyze\<close> on the game of
  two plies returns after its first iteration (depth 1 in the statistics, not cancelled,
  the value 0 no proven win) although the configured depth is 2; without the deadline the
  same call deepens to 2. The stop at \<open>i = 1\<close> is the deadline's.\<close>

theorem deadline_stop_at_first_iteration:
  "deadline hurried = Some 50 \<and> Depth (cfg (NewMinimax cfg0)) = 2
   \<and> fst (Analyze toy hurried g1 (NewMinimax cfg0)) = Inr ([place 0 0], 0, depth1Stats)
   \<and> fst (Analyze toy (hurried\<lparr>deadline := None\<rparr>) g1 (NewMinimax cfg0))
       = Inr ([place 0 0, place 1 0], 5, depth2Stats)"
  by (simp add: eval_defs g1_def hurried_def depth1Stats_def depth2Stats_def)

text \<open>
  C10. The cancellation flag is written once and never reset. If a load of the flag, up
  to and including the one the driver makes after its first search, has seen it set, then
  \<open>Analyze\<close> returns the value 0, statistics marked as cancelled, and the principal
  variation it started from: the empty one, or the single move of an exact entry of the
  table for the root. \<open>GetMove\<close> indexes \<open>pv[0]\<close> first: on an empty principal
  variation it panics with an index out of range.
\<close>

theorem Analyze_cancelled_first:
  "(Size (cfg s) = posSize tk p
     \<and> prepare e s = (t0, s1) \<and> rootSeed s1 (posHash tk p) = (base, ms)
     \<and> 1 + base \<le> Depth (cfg s1)
     \<and> pvSearch tk e p 0 (1 + base) ms (MinEval - 1) (MaxEval + 1)
          (snd (now e (s1\<lparr>st := zeroStats\<lparr>stDepth := 1 + base\<rparr>\<rparr>))\<lparr>aiDepth := 1 + base\<rparr>)
         = (Inr (nx, nv), s2)
     \<and> (\<forall>j k. cancelAt e j \<and> j \<le> k \<longrightarrow> cancelAt e k)
     \<and> (\<exists>k \<le> polls s2. cancelAt e k)
     \<longrightarrow> (\<exists>stt s'. Analyze tk e p s = (Inr (ms, 0, stt), s') \<and> Canceled stt)
         \<and> (ms = [] \<or> (\<exists>te. ttGet s1 (posHash tk p) = Some te \<and> te_bound te = exactBound
                              \<and> ms = [te_m te])))
   \<and> (fst (Analyze tk e p s) = Inr ([], v, stt) \<longrightarrow> fst (GetMove tk e p s) = Inl IndexOutOfRange)"
proof (intro conjI impI)
  assume a: "Size (cfg s) = posSize tk p
     \<and> prepare e s = (t0, s1) \<and> rootSeed s1 (posHash tk p) = (base, ms)
     \<and> 1 + base \<le> Depth (cfg s1)
     \<and> pvSearch tk e p 0 (1 + base) ms (MinEval - 1) (MaxEval + 1)
          (snd (now e (s1\<lparr>st := zeroStats\<lparr>stDepth := 1 + base\<rparr>\<rparr>))\<lparr>aiDepth := 1 + base\<rparr>)
         = (Inr (nx, nv), s2)
     \<and> (\<forall>j k. cancelAt e j \<and> j \<le> k \<longrightarrow> cancelAt e k)
     \<and> (\<exists>k \<le> polls s2. cancelAt e k)"
  then have c: "cancelAt e (polls s2)" by blast
  have st: "(case nx of None \<Rightarrow> (True, s2) | Some xs \<Rightarrow> loadCancel e s2)
            = (True, case nx of None \<Rightarrow> s2 | Some xs \<Rightarrow> snd (loadCancel e s2))"
    using c by (simp add: loadCancel_def split: option.splits)
  obtain start sa where n: "now e (s1\<lparr>st := zeroStats\<lparr>stDepth := 1 + base\<rparr>\<rparr>) = (start, sa)"
    by (cases "now e (s1\<lparr>st := zeroStats\<lparr>stDepth := 1 + base\<rparr>\<rparr>)")
  have d: "deepen tk e p base t0 1 ms 0 0 0 zeroStats s1 =
           finish e t0 ms 0 (zeroStats\<lparr>Canceled := True\<rparr>)
             (case nx of None \<Rightarrow> s2 | Some xs \<Rightarrow> snd (loadCancel e s2))"
    using a n by (subst deepen.simps) (simp add: st)
  show "\<exists>stt s'. Analyze tk e p s = (Inr (ms, 0, stt), s') \<and> Canceled stt"
    using a d by (simp add: Analyze_def finish_def since_def)
  show "ms = [] \<or> (\<exists>te. ttGet s1 (posHash tk p) = Some te \<and> te_bound te = exactBound
                              \<and> ms = [te_m te])"
    using a by (auto simp: rootSeed_def split: option.splits if_splits)
next
  assume "fst (Analyze tk e p s) = Inr ([], v, stt)"
  then show "fst (GetMove tk e p s) = Inl IndexOutOfRange"
    by (cases "Analyze tk e p s") (simp add: GetMove_def)
qed

theorem Analyze_cancelled_first_witness:
  "(\<exists>stt s'. Analyze toy cancelled g1 (NewMinimax cfg0) = (Inr ([], 0, stt), s') \<and> Canceled stt)
   \<and> fst (GetMove toy cancelled g1 (NewMinimax cfg0)) = Inl IndexOutOfRange"
proof -
  let ?s = "NewMinimax cfg0"
  define s1 where "s1 = snd (prepare cancelled ?s)"
  define sa where "sa = snd (now cancelled (s1\<lparr>st := zeroStats\<lparr>stDepth := 1 + 0\<rparr>\<rparr>))\<lparr>aiDepth := 1 + 0\<rparr>"
  define s2 where "s2 = snd (pvSearch toy cancelled g1 0 (1 + 0) [] (MinEval - 1) (MaxEval + 1) sa)"
  have sz: "Size (cfg ?s) = posSize toy g1"
    by (simp add: NewMinimax_def cfg0_def toy_def)
  have pr: "prepare cancelled ?s = (0, s1)"
    by (simp add: s1_def prepare_def now_def NewMinimax_def cfg0_def cancelled_def quiet_def)
  have rs: "rootSeed s1 (posHash toy g1) = (0, [])"
    by (simp add: s1_def eval_defs g1_def cancelled_def)
  have dp: "(1 :: int) + 0 \<le> Depth (cfg s1)"
    by (simp add: s1_def prepare_def now_def NewMinimax_def cfg0_def)
  have "fst (pvSearch toy cancelled g1 0 (1 + 0) [] (MinEval - 1) (MaxEval + 1) sa) = Inr (None, 0)"
    by (simp add: sa_def s1_def eval_defs g1_def cancelled_def)
  then have pv: "pvSearch toy cancelled g1 0 (1 + 0) [] (MinEval - 1) (MaxEval + 1)
       (snd (now cancelled (s1\<lparr>st := zeroStats\<lparr>stDepth := 1 + 0\<rparr>\<rparr>))\<lparr>aiDepth := 1 + 0\<rparr>)
       = (Inr (None, 0), s2)"
    unfolding s2_def sa_def by (metis prod.collapse)
  have mono: "\<forall>j k. cancelAt cancelled j \<and> j \<le> k \<longrightarrow> cancelAt cancelled k"
    by (simp add: cancelled_def)
  have seen: "\<exists>k \<le> polls s2. cancelAt cancelled k"
    by (rule exI[of _ 0]) (simp add: cancelled_def)
  have one: "\<exists>stt s'. Analyze toy cancelled g1 ?s = (Inr ([], 0, stt), s') \<and> Canceled stt"
    using Analyze_cancelled_first[THEN conjunct1, rule_format,
        OF conjI[OF sz conjI[OF pr conjI[OF rs conjI[OF dp conjI[OF pv conjI[OF mono seen]]]]]]]
    by blast
  then obtain stt s' where a: "Analyze toy cancelled g1 ?s = (Inr ([], 0, stt), s')" by blast
  have "fst (GetMove toy cancelled g1 ?s) = Inl IndexOutOfRange"
    by (rule Analyze_cancelled_first[THEN conjunct2, rule_format, of toy cancelled g1 ?s 0 stt])
       (simp add: a)
  with one show ?thesis by blast
qed



end
